theory Spec2Isabelle
  imports Complex_Main "HOL-Library.Word" "HOL-Library.Signed_Division"
begin

section \<open>Machine integers, strings and failures\<close>

text \<open>
  The C++ \<^verbatim>\<open>int\<close> is a 32-bit two's complement word read with \<open>sint\<close>; a
  fingerprint is an unsigned 64-bit word. \<^verbatim>\<open>size_t\<close> is taken as 64 bits wide; sizes
  of strings and vectors are natural numbers.
\<close>

type_synonym int32 = "32 word"
type_synonym uint64 = "64 word"

text \<open>
  The value of an integer expression converted to \<^verbatim>\<open>size_t\<close>, which is also how
  unsigned arithmetic wraps around.
\<close>

definition size_t :: "int \<Rightarrow> int" where
  "size_t i = i mod 2 ^ 64"

text \<open>\<^verbatim>\<open>static_cast<int>\<close> of a size.\<close>

definition static_cast_int :: "nat \<Rightarrow> int" where
  "static_cast_int n = sint (word_of_nat n :: int32)"

text \<open>
  What stops a call instead of returning: \<^verbatim>\<open>std::string::substr(pos, n)\<close> raises
  \<^verbatim>\<open>std::out_of_range\<close> when \<open>pos\<close> is past the end (and otherwise returns
  \<open>min n (size - pos)\<close> characters from \<open>pos\<close>), the remainder of a division by
  zero is undefined, and a loop that runs until an iterator equals \<open>end\<close> does not
  stop once the iterator has stepped over \<open>end\<close>. The arguments of \<open>substr\<close>
  are \<^verbatim>\<open>size_t\<close> values.
\<close>

datatype error = OutOfRange | DivisionByZero | IteratorPastEnd

definition substr :: "string \<Rightarrow> int \<Rightarrow> int \<Rightarrow> error + string" where
  "substr s pos n =
     (if int (length s) < pos then Inl OutOfRange
      else Inr (take (nat (min n (int (length s) - pos))) (drop (nat pos) s)))"

text \<open>Running a fallible step over a list, left to right, stopping at the first failure.\<close>

fun collect :: "('a \<Rightarrow> error + 'b) \<Rightarrow> 'a list \<Rightarrow> error + 'b list" where
  "collect f [] = Inr []"
| "collect f (x # xs) =
     (case f x of
        Inl e \<Rightarrow> Inl e
      | Inr y \<Rightarrow> (case collect f xs of Inl e \<Rightarrow> Inl e | Inr ys \<Rightarrow> Inr (y # ys)))"

text \<open>\<^verbatim>\<open>isdigit\<close> and \<^verbatim>\<open>isupper\<close> of the C library in the "C" locale, on one byte.\<close>

definition isdigit :: "char \<Rightarrow> bool" where
  "isdigit c = (48 \<le> (of_char c :: nat) \<and> (of_char c :: nat) \<le> 57)"

definition isupper :: "char \<Rightarrow> bool" where
  "isupper c = (65 \<le> (of_char c :: nat) \<and> (of_char c :: nat) \<le> 90)"

section \<open>Unicode text\<close>

text \<open>
  Modelled from the spec: \<^verbatim>\<open>UnicodeText\<close>, its iterator and \<^verbatim>\<open>UTF8ToUnicodeText\<close>
  (util/utf8/unicodetext.h is not among the sources). The spec's Unicode utility converts
  between raw bytes and codepoint sequences and iterates codepoints. A codepoint is kept as
  its UTF-8 bytes, a text is the list of its codepoints, an iterator is an index into that
  list (\<open>begin\<close> is 0, \<open>end\<close> is the length), and the length of a codepoint is read
  from its lead byte.
\<close>

type_synonym codepoint = string
type_synonym UnicodeText = "codepoint list"

definition OneCharLen :: "char \<Rightarrow> nat" where
  "OneCharLen c =
     (let b = (of_char c :: nat) in
      if b < 192 then 1 else if b < 224 then 2 else if b < 240 then 3 else 4)"

function UTF8ToUnicodeText :: "string \<Rightarrow> UnicodeText" where
  "UTF8ToUnicodeText [] = []"
| "UTF8ToUnicodeText (c # cs) =
     (c # take (OneCharLen c - 1) cs) # UTF8ToUnicodeText (drop (OneCharLen c - 1) cs)"
  by pat_completeness auto
termination
  by (relation "measure length") auto

text \<open>
  \<^verbatim>\<open>UTF8Substring(first, last)\<close>: the bytes of the codepoints from the first iterator
  up to the second.
\<close>

definition UTF8Substring :: "UnicodeText \<Rightarrow> nat \<Rightarrow> nat \<Rightarrow> string" where
  "UTF8Substring text it_first it_last = concat (take (it_last - it_first) (drop it_first text))"

text \<open>
  The list of codepoints stands for the library on bytes that are structurally valid UTF-8:
  every codepoint is a byte that is not a trail byte (a byte from 0x80 to 0xBF), followed by
  as many trail bytes as its lead byte announces. There an iterator that moves forward by the
  length read from the lead byte, and backward over trail bytes, moves from one codepoint to
  the next and meets \<open>end\<close>. Where the bytes end before the last codepoint has the
  length its lead byte announces, the list holds the bytes that are there, and an iterator
  moving forward steps over \<open>end\<close>.
\<close>

definition is_trail_byte :: "char \<Rightarrow> bool" where
  "is_trail_byte c = (128 \<le> (of_char c :: nat) \<and> (of_char c :: nat) < 192)"

function structurally_valid_utf8 :: "string \<Rightarrow> bool" where
  "structurally_valid_utf8 [] = True"
| "structurally_valid_utf8 (c # cs) =
     (\<not> is_trail_byte c \<and> OneCharLen c - 1 \<le> length cs \<and>
      list_all is_trail_byte (take (OneCharLen c - 1) cs) \<and>
      structurally_valid_utf8 (drop (OneCharLen c - 1) cs))"
  by pat_completeness auto
termination
  by (relation "measure length") auto

section \<open>External collaborators of the feature extractor\<close>

text \<open>
  The fingerprint (util/hash/farmhash.h) and ICU are not part of the sources; they are
  parameters. \<open>u_isdigit\<close> and \<open>u_isupper\<close> classify the codepoint an iterator points
  at; \<open>RegexPattern_compile\<close> returns \<open>None\<close> for the null pointer ICU returns on a
  pattern that does not compile; \<open>RegexMatcher_find\<close> is \<^verbatim>\<open>matcher(text)->find()\<close> on
  the UTF-8 bytes of the token.
\<close>

record 'pat externals =
  Fingerprint64 :: "string \<Rightarrow> uint64"
  u_isdigit :: "codepoint \<Rightarrow> bool"
  u_isupper :: "codepoint \<Rightarrow> bool"
  RegexPattern_compile :: "string \<Rightarrow> 'pat option"
  RegexMatcher_find :: "'pat \<Rightarrow> string \<Rightarrow> bool"

section \<open>Tokens and options\<close>

record Token =
  token_value :: string
  is_padding :: bool
  is_in_span :: bool

record TokenFeatureExtractorOptions =
  num_buckets :: int32
  chargram_orders :: "int32 list"
  max_word_length :: int32
  remap_digits :: bool
  unicode_aware_features :: bool
  extract_case_feature :: bool
  extract_selection_mask_feature :: bool
  regexp_features :: "string list"

text \<open>The members of the class, named as in the source without the trailing underscore.\<close>

record 'pat TokenFeatureExtractor =
  options :: TokenFeatureExtractorOptions
  regex_patterns :: "'pat option list"

section \<open>smartselect/token-feature-extractor.cc\<close>

definition MapDigitsToZeroAscii :: "string \<Rightarrow> string" where
  "MapDigitsToZeroAscii token =
     fold (\<lambda>i copy. if isdigit (copy ! i) then copy[i := CHR ''0''] else copy)
       [0 ..< length token] token"

text \<open>
  The loop of \<^verbatim>\<open>MapDigitsToZeroUnicode\<close>, from the codepoint the iterator points at
  on. It runs while \<^verbatim>\<open>it != word.end()\<close>, and \<^verbatim>\<open>++it\<close> moves forward by the length
  read from the lead byte: after a codepoint that is cut short the iterator is past
  \<open>end\<close> and the loop does not stop.
\<close>

fun MapDigitsToZeroUnicode_loop :: "'pat externals \<Rightarrow> UnicodeText \<Rightarrow> error + UnicodeText" where
  "MapDigitsToZeroUnicode_loop ext [] = Inr []"
| "MapDigitsToZeroUnicode_loop ext (cp # rest) =
     (if length cp \<noteq> OneCharLen (hd cp) then Inl IteratorPastEnd
      else
        (case MapDigitsToZeroUnicode_loop ext rest of
           Inl e \<Rightarrow> Inl e
         | Inr remapped \<Rightarrow> Inr ((if u_isdigit ext cp then ''0'' else cp) # remapped)))"

definition MapDigitsToZeroUnicode :: "'pat externals \<Rightarrow> string \<Rightarrow> error + UnicodeText" where
  "MapDigitsToZeroUnicode ext token = MapDigitsToZeroUnicode_loop ext (UTF8ToUnicodeText token)"

text \<open>The constructor keeps one entry per configured pattern, compiled or null.\<close>

definition TokenFeatureExtractor_new ::
  "'pat externals \<Rightarrow> TokenFeatureExtractorOptions \<Rightarrow> 'pat TokenFeatureExtractor" where
  "TokenFeatureExtractor_new ext opts =
     \<lparr>options = opts,
      regex_patterns = map (RegexPattern_compile ext) (regexp_features opts)\<rparr>"

text \<open>
  \<^verbatim>\<open>Fingerprint64(token) % num_buckets\<close>: the \<^verbatim>\<open>int\<close> is converted to
  64 bits unsigned (sign extension), the remainder is truncated to the \<^verbatim>\<open>int\<close>
  returned.
\<close>

definition HashToken ::
  "'pat externals \<Rightarrow> 'pat TokenFeatureExtractor \<Rightarrow> string \<Rightarrow> error + int32" where
  "HashToken ext this token =
     (if num_buckets (options this) = 0 then Inl DivisionByZero
      else Inr (ucast (Fingerprint64 ext token mod (scast (num_buckets (options this)) :: uint64))))"

text \<open>
  The local \<^verbatim>\<open>feature_word\<close> of \<^verbatim>\<open>ExtractCharactergramFeaturesAscii\<close>. The
  comparison \<^verbatim>\<open>word.size() > max_word_length\<close> and the subtraction
  \<^verbatim>\<open>word.size() - max_word_length / 2\<close> are unsigned; the division truncates.
\<close>

definition FeatureWordAscii :: "TokenFeatureExtractorOptions \<Rightarrow> Token \<Rightarrow> error + string" where
  "FeatureWordAscii opts token =
     (let word = (if remap_digits opts then MapDigitsToZeroAscii (token_value token)
                  else token_value token);
          mwl = sint (max_word_length opts);
          half = size_t (mwl sdiv 2)
      in if size_t mwl < int (length word) then
           (case substr word 0 half of
              Inl e \<Rightarrow> Inl e
            | Inr prefix \<Rightarrow>
                (case substr word (size_t (int (length word) - half)) half of
                   Inl e \<Rightarrow> Inl e
                 | Inr suffix \<Rightarrow> Inr (''^'' @ prefix @ [CHR 0x01] @ suffix @ ''$'')))
         else Inr (''^'' @ word @ ''$''))"

text \<open>
  The substrings one n-gram order asks for, in the order of the loop. Order 1 runs \<open>i\<close>
  from 1 while \<^verbatim>\<open>i < feature_word.size() - 1\<close> (the feature word holds at least its two
  sentinels, so the unsigned bound does not wrap); any other order \<open>k\<close> runs \<open>i\<close> from
  0 while \<^verbatim>\<open>i < static_cast<int>(feature_word.size()) - k + 1\<close>, a bound computed
  here without wrap-around (overflow of \<^verbatim>\<open>int\<close> is undefined). The list
  \<open>[a .. b]\<close> holds the integers from \<open>a\<close> to \<open>b\<close>, both included.
\<close>

definition chargrams_ascii :: "string \<Rightarrow> int32 \<Rightarrow> (error + string) list" where
  "chargrams_ascii feature_word chargram_order =
     (if chargram_order = 1 then
        map (\<lambda>i. substr feature_word i 1) [1 .. int (length feature_word) - 1 - 1]
      else
        map (\<lambda>i. substr feature_word i (size_t (sint chargram_order)))
          [0 .. static_cast_int (length feature_word) - sint chargram_order + 1 - 1])"

definition hash_chargram ::
  "'pat externals \<Rightarrow> 'pat TokenFeatureExtractor \<Rightarrow> error + string \<Rightarrow> error + int32" where
  "hash_chargram ext this g = (case g of Inl e \<Rightarrow> Inl e | Inr s \<Rightarrow> HashToken ext this s)"

definition ExtractCharactergramFeaturesAscii ::
  "'pat externals \<Rightarrow> 'pat TokenFeatureExtractor \<Rightarrow> Token \<Rightarrow> error + int32 list" where
  "ExtractCharactergramFeaturesAscii ext this token =
     (if is_padding token then collect (HashToken ext this) [''<PAD>'']
      else
        (case FeatureWordAscii (options this) token of
           Inl e \<Rightarrow> Inl e
         | Inr feature_word \<Rightarrow>
             collect (hash_chargram ext this)
               (concat (map (chargrams_ascii feature_word) (chargram_orders (options this))))))"

text \<open>
  The cut points of the Unicode path: \<^verbatim>\<open>max_word_length / 2\<close> rounds of moving the
  left cut forward and the right cut back while they have not met.
\<close>

fun trim_cuts :: "nat \<Rightarrow> nat \<Rightarrow> nat \<Rightarrow> nat \<times> nat" where
  "trim_cuts 0 left_cut right_cut = (left_cut, right_cut)"
| "trim_cuts (Suc n) left_cut right_cut =
     (let l = (if left_cut < right_cut then left_cut + 1 else left_cut);
          r = (if l < right_cut then right_cut - 1 else right_cut)
      in trim_cuts n l r)"

definition FeatureWordUnicode ::
  "'pat externals \<Rightarrow> TokenFeatureExtractorOptions \<Rightarrow> Token \<Rightarrow> error + string" where
  "FeatureWordUnicode ext opts token =
     (case (if remap_digits opts then MapDigitsToZeroUnicode ext (token_value token)
            else Inr (UTF8ToUnicodeText (token_value token))) of
        Inl e \<Rightarrow> Inl e
      | Inr word \<Rightarrow>
          (let cuts = trim_cuts (nat (sint (max_word_length opts) sdiv 2)) 0 (length word)
           in if fst cuts = snd cuts then
                Inr (''^'' @ UTF8Substring word 0 (length word) @ ''$'')
              else
                Inr (''^'' @ UTF8Substring word 0 (fst cuts) @ [CHR 0x01] @
                       UTF8Substring word (snd cuts) (length word) @ ''$'')))"

text \<open>
  The loop that moves \<^verbatim>\<open>it_chargram_end\<close> forward \<open>chargram_order\<close> times: it
  returns the iterator and \<^verbatim>\<open>chargram_is_complete\<close>.
\<close>

fun advance_chargram_end :: "nat \<Rightarrow> nat \<Rightarrow> nat \<Rightarrow> nat \<times> bool" where
  "advance_chargram_end 0 it_chargram_end it_end = (it_chargram_end, True)"
| "advance_chargram_end (Suc n) it_chargram_end it_end =
     (if it_end \<le> it_chargram_end + 1 then (it_chargram_end + 1, False)
      else advance_chargram_end n (it_chargram_end + 1) it_end)"

text \<open>The loop that slides the window while \<^verbatim>\<open>it_chargram_end <= it_end\<close>.\<close>

function slide_chargrams :: "UnicodeText \<Rightarrow> nat \<Rightarrow> nat \<Rightarrow> nat \<Rightarrow> string list" where
  "slide_chargrams text it_chargram_start it_chargram_end it_end =
     (if it_chargram_end \<le> it_end then
        UTF8Substring text it_chargram_start it_chargram_end #
          slide_chargrams text (it_chargram_start + 1) (it_chargram_end + 1) it_end
      else [])"
  by pat_completeness auto
termination
  by (relation "measure (\<lambda>(text, s, e, it_end). it_end + 1 - e)") auto

definition chargrams_unicode :: "UnicodeText \<Rightarrow> int32 \<Rightarrow> string list" where
  "chargrams_unicode text chargram_order =
     (let it_start = (if chargram_order = 1 then 1 else 0);
          it_end = (if chargram_order = 1 then length text - 1 else length text);
          adv = advance_chargram_end (nat (sint chargram_order)) it_start it_end
      in if \<not> snd adv then []
         else slide_chargrams text it_start (fst adv) it_end)"

definition ExtractCharactergramFeaturesUnicode ::
  "'pat externals \<Rightarrow> 'pat TokenFeatureExtractor \<Rightarrow> Token \<Rightarrow> error + int32 list" where
  "ExtractCharactergramFeaturesUnicode ext this token =
     (if is_padding token then collect (HashToken ext this) [''<PAD>'']
      else
        (case FeatureWordUnicode ext (options this) token of
           Inl e \<Rightarrow> Inl e
         | Inr feature_word \<Rightarrow>
             (let text = UTF8ToUnicodeText feature_word
              in collect (HashToken ext this)
                   (concat (map (chargrams_unicode text) (chargram_orders (options this)))))))"

definition ExtractCharactergramFeatures ::
  "'pat externals \<Rightarrow> 'pat TokenFeatureExtractor \<Rightarrow> Token \<Rightarrow> error + int32 list" where
  "ExtractCharactergramFeatures ext this token =
     (if unicode_aware_features (options this) then ExtractCharactergramFeaturesUnicode ext this token
      else ExtractCharactergramFeaturesAscii ext this token)"

text \<open>
  The dense values. Each step pushes onto the back of the caller's vector, which
  \<^verbatim>\<open>Extract\<close> does not clear.
\<close>

definition push_case_feature ::
  "'pat externals \<Rightarrow> TokenFeatureExtractorOptions \<Rightarrow> Token \<Rightarrow> real list \<Rightarrow> real list" where
  "push_case_feature ext opts token dense_features =
     (if extract_case_feature opts then
        (if unicode_aware_features opts then
           (if token_value token \<noteq> [] \<and> u_isupper ext (hd (UTF8ToUnicodeText (token_value token)))
            then dense_features @ [1] else dense_features @ [- 1])
         else
           (if token_value token \<noteq> [] \<and> isupper (hd (token_value token))
            then dense_features @ [1] else dense_features @ [- 1]))
      else dense_features)"

definition push_selection_mask_feature ::
  "TokenFeatureExtractorOptions \<Rightarrow> Token \<Rightarrow> real list \<Rightarrow> real list" where
  "push_selection_mask_feature opts token dense_features =
     (if extract_selection_mask_feature opts then
        (if is_in_span token then dense_features @ [1]
         else if unicode_aware_features opts then dense_features @ [- 1]
         else dense_features @ [0])
      else dense_features)"

definition push_regexp_features ::
  "'pat externals \<Rightarrow> 'pat TokenFeatureExtractor \<Rightarrow> Token \<Rightarrow> real list \<Rightarrow> real list" where
  "push_regexp_features ext this token dense_features =
     fold (\<lambda>pattern dense.
             (case pattern of
                None \<Rightarrow> dense @ [- 1]
              | Some p \<Rightarrow>
                  if RegexMatcher_find ext p (token_value token) then dense @ [1]
                  else dense @ [- 1]))
       (regex_patterns this) dense_features"

text \<open>
  \<^verbatim>\<open>Extract\<close> for one token. A pointer is \<open>None\<close> when null and otherwise holds the
  contents of the vector it points to. The result is the value returned and the
  contents behind the two pointers after the call.
\<close>

definition Extract ::
  "'pat externals \<Rightarrow> 'pat TokenFeatureExtractor \<Rightarrow> Token \<Rightarrow>
     int32 list option \<Rightarrow> real list option \<Rightarrow>
     error + bool \<times> int32 list option \<times> real list option" where
  "Extract ext this token sparse_features dense_features =
     (case sparse_features of
        None \<Rightarrow> Inr (False, sparse_features, dense_features)
      | Some _ \<Rightarrow>
          (case dense_features of
             None \<Rightarrow> Inr (False, sparse_features, dense_features)
           | Some dense \<Rightarrow>
               (case ExtractCharactergramFeatures ext this token of
                  Inl e \<Rightarrow> Inl e
                | Inr ids \<Rightarrow>
                    Inr (True, Some ids,
                         Some (push_regexp_features ext this token
                                 (push_selection_mask_feature (options this) token
                                    (push_case_feature ext (options this) token dense)))))))"




section \<open>lang_id/lang-id.cc\<close>

text \<open>
  The classes the language identifier is built from (the memory image, the task context, the
  protocol buffer parser, the embedding network, the tokenizer, the feature functions and
  the softmax) are not part of the sources; they are parameters. \<open>'ctx\<close> is a
  \<^verbatim>\<open>TaskContext\<close>, \<open>'net\<close> an \<^verbatim>\<open>EmbeddingNetworkProto\<close>, \<open>'sent\<close> a
  \<^verbatim>\<open>LightSentence\<close> and \<open>'fv\<close> the vector of \<^verbatim>\<open>FeatureVector\<close>s. A pointer or a
  \<^verbatim>\<open>StringPiece\<close> whose data may be null is an option. \<open>GetInput\<close> gives the file
  patterns of the parts of a \<^verbatim>\<open>TaskInput\<close>. Probabilities are real numbers.
\<close>

record ('ctx, 'net, 'sent, 'fv) lang_id_externals =
  GetTaskSpec :: "string \<Rightarrow> 'ctx option"
  GetInput :: "'ctx \<Rightarrow> string \<Rightarrow> string list"
  GetBytesForInputFile :: "string \<Rightarrow> string \<Rightarrow> string option"
  ParseEmbeddingNetworkProto :: "string \<Rightarrow> 'net option"
  ParseListOfStrings :: "string \<Rightarrow> string list option"
  EmbeddingNetworkParamsFromProto_is_valid :: "'net \<Rightarrow> bool"
  EmbeddingNetwork_is_valid :: "'net \<Rightarrow> bool"
  TaskContext_Get :: "'ctx \<Rightarrow> string \<Rightarrow> real \<Rightarrow> real"
  LangIdBrainInterface_Init :: "'ctx \<Rightarrow> bool"
  TokenizeTextForLangId :: "string \<Rightarrow> 'sent"
  GetFeatures :: "'ctx option \<Rightarrow> 'sent \<Rightarrow> 'fv"
  ComputeFinalScores :: "'net option \<Rightarrow> 'fv \<Rightarrow> real list"
  ComputeSoftmax :: "real list \<Rightarrow> real list"

text \<open>
  The members of \<^verbatim>\<open>LangIdImpl\<close>, named as in the source without the trailing
  underscore. The brain interface is the context it was initialised from, the network the
  parameters it was built on.
\<close>

record ('ctx, 'net) LangIdImpl =
  lang_id_brain_interface :: "'ctx option"
  network_params :: "'net option"
  network :: "'net option"
  valid :: bool
  probability_threshold :: real
  languages :: "string list"
  default_language :: string

definition kDefaultProbabilityThreshold :: real where
  "kDefaultProbabilityThreshold = 0.50"

definition kInitialDefaultLanguage :: string where
  "kInitialDefaultLanguage = []"

definition GetInMemoryFileNameForTaskInput ::
  "('ctx, 'net, 'sent, 'fv) lang_id_externals \<Rightarrow> string \<Rightarrow> 'ctx \<Rightarrow> string" where
  "GetInMemoryFileNameForTaskInput env input_name context =
     (case GetInput env context input_name of
        [part] \<Rightarrow> part
      | _ \<Rightarrow> [])"

text \<open>The two parsers return their result and the object as they leave it.\<close>

definition ParseNetworkParams ::
  "('ctx, 'net, 'sent, 'fv) lang_id_externals \<Rightarrow> string \<Rightarrow> 'ctx \<Rightarrow> ('ctx, 'net) LangIdImpl \<Rightarrow>
     bool \<times> ('ctx, 'net) LangIdImpl" where
  "ParseNetworkParams env model_data context this =
     (let input_file_name =
            GetInMemoryFileNameForTaskInput env ''language-identifier-network'' context
      in if input_file_name = [] then (False, this)
         else
           (case GetBytesForInputFile env model_data input_file_name of
              None \<Rightarrow> (False, this)
            | Some bytes \<Rightarrow>
                (case ParseEmbeddingNetworkProto env bytes of
                   None \<Rightarrow> (False, this)
                 | Some proto \<Rightarrow>
                     (if \<not> EmbeddingNetworkParamsFromProto_is_valid env proto
                      then (False, this\<lparr>network_params := Some proto\<rparr>)
                      else (True, this\<lparr>network_params := Some proto\<rparr>)))))"

definition ParseListOfKnownLanguages ::
  "('ctx, 'net, 'sent, 'fv) lang_id_externals \<Rightarrow> string \<Rightarrow> 'ctx \<Rightarrow> ('ctx, 'net) LangIdImpl \<Rightarrow>
     bool \<times> ('ctx, 'net) LangIdImpl" where
  "ParseListOfKnownLanguages env model_data context this =
     (let input_file_name = GetInMemoryFileNameForTaskInput env ''language-name-id-map'' context
      in if input_file_name = [] then (False, this)
         else
           (case GetBytesForInputFile env model_data input_file_name of
              None \<Rightarrow> (False, this)
            | Some bytes \<Rightarrow>
                (case ParseListOfStrings env bytes of
                   None \<Rightarrow> (False, this)
                 | Some records \<Rightarrow>
                     (if length records \<noteq> 1 then (False, this)
                      else
                        (case ParseListOfStrings env (records ! 0) of
                           None \<Rightarrow> (False, this)
                         | Some elements \<Rightarrow> (True, this\<lparr>languages := elements\<rparr>))))))"

text \<open>
  \<^verbatim>\<open>Initialize\<close>; the handle is \<open>None\<close> when the model bytes could not be mapped. The
  two \<^verbatim>\<open>RegisterClass\<close> calls act on a registry outside the object and are left out.
\<close>

definition Initialize ::
  "('ctx, 'net, 'sent, 'fv) lang_id_externals \<Rightarrow> string option \<Rightarrow> ('ctx, 'net) LangIdImpl \<Rightarrow>
     ('ctx, 'net) LangIdImpl" where
  "Initialize env mmap_handle this0 =
     (let this1 = this0\<lparr>valid := False\<rparr> in
      case mmap_handle of
        None \<Rightarrow> this1
      | Some model_bytes \<Rightarrow>
          (case GetTaskSpec env model_bytes of
             None \<Rightarrow> this1
           | Some context \<Rightarrow>
               (case ParseNetworkParams env model_bytes context this1 of
                  (False, this2) \<Rightarrow> this2
                | (True, this2) \<Rightarrow>
                    (case ParseListOfKnownLanguages env model_bytes context this2 of
                       (False, this3) \<Rightarrow> this3
                     | (True, this3) \<Rightarrow>
                         (let this4 = this3\<lparr>network := network_params this3\<rparr> in
                          if \<not> (case network this4 of
                                    Some net \<Rightarrow> EmbeddingNetwork_is_valid env net
                                  | None \<Rightarrow> False)
                          then this4
                          else
                            (let this5 = this4\<lparr>probability_threshold :=
                                    TaskContext_Get env context ''reliability_thresh''
                                      kDefaultProbabilityThreshold\<rparr>;
                                 this6 = this5\<lparr>lang_id_brain_interface := Some context\<rparr>
                             in if \<not> LangIdBrainInterface_Init env context then this6
                                else this6\<lparr>valid := True\<rparr>))))))"

text \<open>
  The constructor: the members with an initialiser get it, the smart pointers are null, and
  \<^verbatim>\<open>valid_\<close>, which has no initialiser, holds whatever was in memory before
  \<^verbatim>\<open>Initialize\<close> runs.
\<close>

definition LangIdImpl_new ::
  "('ctx, 'net, 'sent, 'fv) lang_id_externals \<Rightarrow> string option \<Rightarrow> bool \<Rightarrow> ('ctx, 'net) LangIdImpl" where
  "LangIdImpl_new env mmap_handle uninitialised =
     Initialize env mmap_handle
       \<lparr>lang_id_brain_interface = None, network_params = None, network = None,
        valid = uninitialised, probability_threshold = kDefaultProbabilityThreshold,
        languages = [], default_language = kInitialDefaultLanguage\<rparr>"

definition SetProbabilityThreshold ::
  "real \<Rightarrow> ('ctx, 'net) LangIdImpl \<Rightarrow> ('ctx, 'net) LangIdImpl" where
  "SetProbabilityThreshold threshold this = this\<lparr>probability_threshold := threshold\<rparr>"

definition SetDefaultLanguage ::
  "string \<Rightarrow> ('ctx, 'net) LangIdImpl \<Rightarrow> ('ctx, 'net) LangIdImpl" where
  "SetDefaultLanguage lang this = this\<lparr>default_language := lang\<rparr>"

definition is_valid :: "('ctx, 'net) LangIdImpl \<Rightarrow> bool" where
  "is_valid this = valid this"

definition ScoreLanguages ::
  "('ctx, 'net, 'sent, 'fv) lang_id_externals \<Rightarrow> ('ctx, 'net) LangIdImpl \<Rightarrow> string \<Rightarrow> real list" where
  "ScoreLanguages env this text =
     (if \<not> is_valid this then []
      else
        (let sentence = TokenizeTextForLangId env text;
             features = GetFeatures env (lang_id_brain_interface this) sentence;
             scores = ComputeFinalScores env (network this) features
         in ComputeSoftmax env scores))"

definition GetLanguageForSoftmaxLabel :: "('ctx, 'net) LangIdImpl \<Rightarrow> int \<Rightarrow> string" where
  "GetLanguageForSoftmaxLabel this label =
     (if 0 \<le> label \<and> label < int (length (languages this)) then languages this ! nat label
      else default_language this)"

text \<open>
  Modelled from the spec: \<^verbatim>\<open>GetArgMax\<close> (common/algorithm.h is not among the sources).
  The spec resolves ties for the arg-max by the first occurrence in list order: the result is
  the first index that holds the largest score.
\<close>

fun GetArgMax :: "real list \<Rightarrow> nat" where
  "GetArgMax [] = 0"
| "GetArgMax [x] = 0"
| "GetArgMax (x # y # ys) =
     (let m = GetArgMax (y # ys) in if (y # ys) ! m \<le> x then 0 else Suc m)"

definition FindLanguage ::
  "('ctx, 'net, 'sent, 'fv) lang_id_externals \<Rightarrow> ('ctx, 'net) LangIdImpl \<Rightarrow> string \<Rightarrow> string" where
  "FindLanguage env this text =
     (let scores = ScoreLanguages env this text
      in if scores = [] then default_language this
         else
           (let label = int (GetArgMax scores);
                probability = scores ! nat label
            in if probability < probability_threshold this then default_language this
               else GetLanguageForSoftmaxLabel this label))"

definition FindLanguages ::
  "('ctx, 'net, 'sent, 'fv) lang_id_externals \<Rightarrow> ('ctx, 'net) LangIdImpl \<Rightarrow> string \<Rightarrow>
     (string \<times> real) list" where
  "FindLanguages env this text =
     (let scores = ScoreLanguages env this text
      in map (\<lambda>i. (GetLanguageForSoftmaxLabel this (int i), scores ! i)) [0 ..< length scores])"

section \<open>Notions used in the statements\<close>

text \<open>A token made of ASCII characters only.\<close>

definition is_ascii :: "string \<Rightarrow> bool" where
  "is_ascii s = list_all (\<lambda>c. (of_char c :: nat) < 128) s"

text \<open>The n-grams of one order over an ASCII feature word, as plain strings.\<close>

definition windows :: "string \<Rightarrow> nat \<Rightarrow> nat \<Rightarrow> nat \<Rightarrow> string list" where
  "windows fw k start count = map (\<lambda>j. take k (drop (start + j) fw)) [0 ..< count]"

section \<open>Concrete collaborators\<close>

text \<open>
  Instances of the parameters, used to run the definitions on concrete inputs. In
  \<open>example_externals\<close> the fingerprint is the sum of the bytes, the ICU predicates know the
  ASCII digits, the Arabic-Indic digit three (U+0663, the bytes D9 A3), the ASCII capitals
  and the capital E with acute accent (U+00C9, the bytes C3 89), a pattern is a set of characters (found in a token that holds one of them) and
  the pattern \<^verbatim>\<open>(\<close> does not compile. \<open>example_options\<close> has 1000 buckets, digit
  remapping, both dense features and two patterns, the second of which does not compile;
  the mode, the n-gram orders and the maximal word length are arguments.
  \<open>example_model langs ps\<close>
  stands for a model file whose language list is \<open>langs\<close> and whose network, followed by
  the softmax, gives the probabilities \<open>ps\<close> on every text.
\<close>

definition example_externals :: "string externals" where
  "example_externals =
     \<lparr>Fingerprint64 = (\<lambda>s. word_of_nat (sum_list (map of_char s))),
      u_isdigit = (\<lambda>cp. case cp of [c] \<Rightarrow> isdigit c | _ \<Rightarrow> cp = [CHR 0xD9, CHR 0xA3]),
      u_isupper = (\<lambda>cp. case cp of [c] \<Rightarrow> isupper c | _ \<Rightarrow> cp = [CHR 0xC3, CHR 0x89]),
      RegexPattern_compile = (\<lambda>pattern. if pattern = ''('' then None else Some pattern),
      RegexMatcher_find = (\<lambda>p s. set p \<inter> set s \<noteq> {})\<rparr>"

definition example_options :: "bool \<Rightarrow> int32 list \<Rightarrow> int32 \<Rightarrow> TokenFeatureExtractorOptions" where
  "example_options unicode orders mwl =
     \<lparr>num_buckets = 1000, chargram_orders = orders, max_word_length = mwl,
      remap_digits = True, unicode_aware_features = unicode, extract_case_feature = True,
      extract_selection_mask_feature = True, regexp_features = [''0123456789'', ''('']\<rparr>"

definition example_model ::
  "string list \<Rightarrow> real list \<Rightarrow> (unit, unit, unit, unit) lang_id_externals" where
  "example_model langs ps =
     \<lparr>GetTaskSpec = (\<lambda>bytes. Some ()),
      GetInput = (\<lambda>context input_name. [input_name]),
      GetBytesForInputFile = (\<lambda>bytes file_name. Some file_name),
      ParseEmbeddingNetworkProto = (\<lambda>bytes. Some ()),
      ParseListOfStrings =
        (\<lambda>bytes. if bytes = ''language-name-id-map'' then Some [''dictionary''] else Some langs),
      EmbeddingNetworkParamsFromProto_is_valid = (\<lambda>proto. True),
      EmbeddingNetwork_is_valid = (\<lambda>proto. True),
      TaskContext_Get = (\<lambda>context name default_value. default_value),
      LangIdBrainInterface_Init = (\<lambda>context. True),
      TokenizeTextForLangId = (\<lambda>text. ()),
      GetFeatures = (\<lambda>brain sentence. ()),
      ComputeFinalScores = (\<lambda>net features. ps),
      ComputeSoftmax = (\<lambda>scores. scores)\<rparr>"

section \<open>Facts about the helpers\<close>

lemma collect_Inr_set:
  "collect f xs = Inr ys \<Longrightarrow> y \<in> set ys \<Longrightarrow> \<exists>x \<in> set xs. f x = Inr y"
proof (induction xs arbitrary: ys)
  case Nil
  then show ?case by simp
next
  case (Cons x xs)
  then show ?case
    by (auto split: sum.splits)
qed


lemma uint_scast_nonneg:
  fixes nb :: int32
  assumes "0 \<le> sint nb"
  shows "uint (scast nb :: uint64) = sint nb"
proof -
  have b: "sint nb < 2 ^ 31" using sint_lt [of nb] by simp
  have "sint (scast nb :: uint64) = signed_take_bit 63 (sint nb)"
    by (simp only: signed_scast_eq) simp
  also have "\<dots> = sint nb"
    by (rule signed_take_bit_int_eq_self) (use assms b in auto)
  finally have s: "sint (scast nb :: uint64) = sint nb" .
  have "uint (scast nb :: uint64) = take_bit 64 (sint (scast nb :: uint64))"
    by (simp only: uint_sint) simp
  also have "\<dots> = sint nb"
    unfolding s by (rule take_bit_int_eq_self) (use assms b in auto)
  finally show ?thesis .
qed

lemma sint_ucast_small:
  fixes r :: uint64
  assumes "uint r < 2 ^ 31"
  shows "sint (ucast r :: int32) = uint r"
proof -
  have "sint (ucast r :: int32) = signed_take_bit 31 (uint r)"
    by (simp only: signed_ucast_eq) simp
  also have "\<dots> = uint r"
  proof (rule signed_take_bit_int_eq_self)
    show "- (2 ^ 31) \<le> uint r" by (rule order_trans [OF _ uint_nonnegative]) simp
    show "uint r < 2 ^ 31" by (rule assms)
  qed
  finally show ?thesis .
qed

text \<open>With a positive number of buckets a hash id is a bucket index.\<close>

lemma HashToken_range:
  assumes "0 < sint (num_buckets (options this))"
    and "HashToken ext this s = Inr h"
  shows "0 \<le> sint h \<and> sint h < sint (num_buckets (options this))"
proof -
  define nb where "nb = num_buckets (options this)"
  define r where "r = Fingerprint64 ext s mod (scast nb :: uint64)"
  have h: "h = ucast r"
    using assms(2) by (auto simp: HashToken_def nb_def r_def split: if_splits)
  have pos: "0 < sint nb" using assms(1) by (simp add: nb_def)
  have lt: "sint nb < 2 ^ 31"
    using sint_lt [of nb] by simp
  have sc: "uint (scast nb :: uint64) = sint nb"
    using pos by (simp add: uint_scast_nonneg)
  have "uint r = uint (Fingerprint64 ext s) mod sint nb"
    unfolding r_def by (simp only: uint_mod sc)
  then have r: "0 \<le> uint r \<and> uint r < sint nb"
    using pos by simp
  then have "sint (ucast r :: int32) = uint r"
    using lt by (intro sint_ucast_small) linarith
  then show ?thesis using r h nb_def by simp
qed


lemma hash_chargram_range:
  assumes "0 < sint (num_buckets (options this))"
    and "hash_chargram ext this g = Inr h"
  shows "0 \<le> sint h \<and> sint h < sint (num_buckets (options this))"
  using assms by (auto simp: hash_chargram_def split: sum.splits dest: HashToken_range)

lemma ExtractCharactergramFeatures_range:
  assumes "0 < sint (num_buckets (options this))"
    and "ExtractCharactergramFeatures ext this token = Inr ids"
    and "h \<in> set ids"
  shows "0 \<le> sint h \<and> sint h < sint (num_buckets (options this))"
proof (cases "unicode_aware_features (options this)")
  case True
  with assms(2) have "ExtractCharactergramFeaturesUnicode ext this token = Inr ids"
    by (simp add: ExtractCharactergramFeatures_def)
  then obtain xs where "collect (HashToken ext this) xs = Inr ids"
    by (auto simp: ExtractCharactergramFeaturesUnicode_def Let_def simp del: collect.simps
        split: if_splits sum.splits)
  with assms(3) obtain x where "HashToken ext this x = Inr h"
    by (blast dest: collect_Inr_set)
  with assms(1) show ?thesis by (rule HashToken_range)
next
  case False
  with assms(2) have "ExtractCharactergramFeaturesAscii ext this token = Inr ids"
    by (simp add: ExtractCharactergramFeatures_def)
  then consider xs where "collect (HashToken ext this) xs = Inr ids"
    | gs where "collect (hash_chargram ext this) gs = Inr ids"
    by (auto simp: ExtractCharactergramFeaturesAscii_def simp del: collect.simps split: if_splits sum.splits)
  then show ?thesis
  proof cases
    case 1
    with assms(3) obtain x where "HashToken ext this x = Inr h"
      by (blast dest: collect_Inr_set)
    with assms(1) show ?thesis by (rule HashToken_range)
  next
    case 2
    with assms(3) obtain g where "hash_chargram ext this g = Inr h"
      by (blast dest: collect_Inr_set)
    with assms(1) show ?thesis by (rule hash_chargram_range)
  qed
qed

lemma push_regexp_features_eq:
  "push_regexp_features ext this token dense =
     dense @ map (\<lambda>pattern. case pattern of None \<Rightarrow> - 1
                    | Some p \<Rightarrow> if RegexMatcher_find ext p (token_value token) then 1 else - 1)
               (regex_patterns this)"
proof -
  have "fold (\<lambda>pattern dense.
             (case pattern of
                None \<Rightarrow> dense @ [- 1]
              | Some p \<Rightarrow>
                  if RegexMatcher_find ext p (token_value token) then dense @ [1]
                  else dense @ [- 1])) ps d
     = d @ map (\<lambda>pattern. case pattern of None \<Rightarrow> - 1
                    | Some p \<Rightarrow> if RegexMatcher_find ext p (token_value token) then 1 else - 1) ps"
    for ps and d :: "real list"
    by (induction ps arbitrary: d) (auto split: option.splits)
  then show ?thesis by (simp add: push_regexp_features_def)
qed

lemma fold_update_prefix:
  "n \<le> length xs \<Longrightarrow>
   fold (\<lambda>i copy. if P (copy ! i) then copy[i := z] else copy) [0 ..< n] xs =
     map (\<lambda>c. if P c then z else c) (take n xs) @ drop n xs"
proof (induction n)
  case 0
  then show ?case by simp
next
  case (Suc n)
  then have n: "n < length xs" by simp
  let ?done = "map (\<lambda>c. if P c then z else c) (take n xs)"
  let ?rest = "drop (Suc n) xs"
  have len: "length ?done = n" using n by simp
  have split: "drop n xs = xs ! n # ?rest"
    using n by (simp add: Cons_nth_drop_Suc)
  have nth: "(?done @ xs ! n # ?rest) ! n = xs ! n"
    using len by (metis nth_append_length)
  have upd: "(?done @ xs ! n # ?rest)[n := v] = ?done @ v # ?rest" for v
    using len by (metis list_update_length)
  have step: "map (\<lambda>c. if P c then z else c) (take (Suc n) xs) =
      ?done @ [if P (xs ! n) then z else xs ! n]"
    using n by (simp add: take_Suc_conv_app_nth)
  have "fold (\<lambda>i copy. if P (copy ! i) then copy[i := z] else copy) [0 ..< Suc n] xs =
      (\<lambda>copy. if P (copy ! n) then copy[n := z] else copy) (?done @ xs ! n # ?rest)"
    using Suc n by (simp add: split)
  also have "\<dots> = ?done @ (if P (xs ! n) then z else xs ! n) # ?rest"
    by (simp only: nth upd split: if_splits) simp
  also have "\<dots> = map (\<lambda>c. if P c then z else c) (take (Suc n) xs) @ ?rest"
    by (simp only: step) simp
  finally show ?case .
qed

lemma MapDigitsToZeroAscii_map:
  "MapDigitsToZeroAscii token = map (\<lambda>c. if isdigit c then CHR ''0'' else c) token"
  using fold_update_prefix [of "length token" token isdigit "CHR ''0''"]
  by (simp add: MapDigitsToZeroAscii_def)

lemma concat_UTF8ToUnicodeText: "concat (UTF8ToUnicodeText s) = s"
  by (induction s rule: UTF8ToUnicodeText.induct) simp_all

lemma length_UTF8ToUnicodeText_le: "length (UTF8ToUnicodeText s) \<le> length s"
  by (induction s rule: UTF8ToUnicodeText.induct) auto

lemma trim_cuts_meet:
  "l \<le> r \<Longrightarrow> r - l \<le> 2 * n \<Longrightarrow> fst (trim_cuts n l r) = snd (trim_cuts n l r)"
proof (induction n arbitrary: l r)
  case 0
  then show ?case by simp
next
  case (Suc n)
  show ?case
  proof (cases "l < r")
    case False
    with Suc.prems have "l = r" by simp
    then show ?thesis using Suc.IH [of r r] by simp
  next
    case True
    show ?thesis
    proof (cases "l + 1 < r")
      case True
      then show ?thesis
        using Suc.IH [of "l + 1" "r - 1"] Suc.prems \<open>l < r\<close> by (simp add: Let_def)
    next
      case False
      then show ?thesis
        using Suc.IH [of "l + 1" r] Suc.prems \<open>l < r\<close> by (simp add: Let_def)
    qed
  qed
qed

lemma size_t_small: "0 \<le> i \<Longrightarrow> i < 2 ^ 64 \<Longrightarrow> size_t i = i"
  by (simp add: size_t_def)

lemma sint_int32_bounds:
  fixes w :: int32
  shows "- (2 ^ 31) \<le> sint w" and "sint w < 2 ^ 31"
  using sint_ge [of w] sint_lt [of w] by simp_all

lemma size_t_sint:
  fixes w :: int32
  assumes "0 \<le> sint w"
  shows "size_t (sint w) = sint w"
proof (rule size_t_small [OF assms])
  have "sint w < 2 ^ 31" by (rule sint_int32_bounds)
  also have "(2 :: int) ^ 31 < 2 ^ 64" by simp
  finally show "sint w < 2 ^ 64" .
qed

lemma FeatureWordAscii_short:
  assumes "int (length (token_value token)) < sint (max_word_length opts)"
  shows "FeatureWordAscii opts token =
     Inr (''^'' @ (if remap_digits opts
                   then map (\<lambda>c. if isdigit c then CHR ''0'' else c) (token_value token)
                   else token_value token) @ ''$'')"
proof -
  have "0 \<le> sint (max_word_length opts)" using assms by linarith
  then have "size_t (sint (max_word_length opts)) = sint (max_word_length opts)"
    by (rule size_t_sint)
  then show ?thesis
    using assms by (simp add: FeatureWordAscii_def MapDigitsToZeroAscii_map Let_def)
qed

lemma OneCharLen_pos: "0 < OneCharLen c"
  by (simp add: OneCharLen_def Let_def)

lemma MapDigitsToZeroUnicode_valid:
  "structurally_valid_utf8 token \<Longrightarrow>
   MapDigitsToZeroUnicode ext token =
     Inr (map (\<lambda>cp. if u_isdigit ext cp then ''0'' else cp) (UTF8ToUnicodeText token))"
  unfolding MapDigitsToZeroUnicode_def
proof (induction token rule: structurally_valid_utf8.induct)
  case 1
  then show ?case by simp
next
  case (2 c cs)
  then have "OneCharLen c - 1 \<le> length cs" by simp
  then have "length (c # take (OneCharLen c - 1) cs) = OneCharLen c"
    using OneCharLen_pos [of c] by simp
  then show ?case using 2 by simp
qed

lemma structurally_valid_utf8_ascii: "is_ascii s \<Longrightarrow> structurally_valid_utf8 s"
  by (induction s) (simp_all add: is_ascii_def OneCharLen_def is_trail_byte_def)


lemma FeatureWordUnicode_short:
  assumes "int (length (UTF8ToUnicodeText (token_value token))) < sint (max_word_length opts)"
    and "remap_digits opts \<longrightarrow> structurally_valid_utf8 (token_value token)"
  shows "FeatureWordUnicode ext opts token =
     Inr (''^'' @ (if remap_digits opts
              then concat (map (\<lambda>cp. if u_isdigit ext cp then ''0'' else cp)
                             (UTF8ToUnicodeText (token_value token)))
              else token_value token) @ ''$'')"
proof -
  define word where "word = (if remap_digits opts
      then map (\<lambda>cp. if u_isdigit ext cp then ''0'' else cp) (UTF8ToUnicodeText (token_value token))
      else UTF8ToUnicodeText (token_value token))"
  define n where "n = nat (sint (max_word_length opts) sdiv 2)"
  have run: "(if remap_digits opts then MapDigitsToZeroUnicode ext (token_value token)
      else Inr (UTF8ToUnicodeText (token_value token))) = Inr word"
    using assms(2) by (simp add: word_def MapDigitsToZeroUnicode_valid)
  have len: "length word = length (UTF8ToUnicodeText (token_value token))"
    by (simp add: word_def)
  have pos: "0 < sint (max_word_length opts)" using assms(1) by linarith
  then have "sint (max_word_length opts) sdiv 2 = sint (max_word_length opts) div 2"
    by (simp add: signed_divide_int_def sgn_if)
  then have "sint (max_word_length opts) \<le> 2 * int n + 1"
    using pos by (simp add: n_def)
  then have "length word - 0 \<le> 2 * n"
    using assms(1) len by linarith
  then have meet: "fst (trim_cuts n 0 (length word)) = snd (trim_cuts n 0 (length word))"
    by (intro trim_cuts_meet) simp_all
  have "concat word = (if remap_digits opts
              then concat (map (\<lambda>cp. if u_isdigit ext cp then ''0'' else cp)
                             (UTF8ToUnicodeText (token_value token)))
              else token_value token)"
    by (simp add: word_def concat_UTF8ToUnicodeText)
  then show ?thesis
    using meet unfolding FeatureWordUnicode_def run n_def [symmetric]
    by (simp add: Let_def UTF8Substring_def)
qed





lemma length_MapDigitsToZeroAscii: "length (MapDigitsToZeroAscii token) = length token"
  by (simp add: MapDigitsToZeroAscii_map)

















lemma GetLanguageForSoftmaxLabel_threshold:
  "GetLanguageForSoftmaxLabel (this\<lparr>probability_threshold := t\<rparr>) label =
   GetLanguageForSoftmaxLabel this label"
  by (simp add: GetLanguageForSoftmaxLabel_def)

lemma FindLanguages_SetProbabilityThreshold:
  "FindLanguages env (SetProbabilityThreshold t this) text = FindLanguages env this text"
  by (simp add: FindLanguages_def ScoreLanguages_def SetProbabilityThreshold_def is_valid_def
      GetLanguageForSoftmaxLabel_threshold)




lemma GetArgMax_less: "scores \<noteq> [] \<Longrightarrow> GetArgMax scores < length scores"
  by (induction scores rule: GetArgMax.induct) (auto simp: Let_def)

lemma GetArgMax_greatest:
  "j < length scores \<Longrightarrow> scores ! j \<le> scores ! GetArgMax scores"
proof (induction scores arbitrary: j rule: GetArgMax.induct)
  case 1
  then show ?case by simp
next
  case (2 x)
  then show ?case by simp
next
  case (3 x y ys)
  let ?m = "GetArgMax (y # ys)"
  show ?case
  proof (cases j)
    case 0
    then show ?thesis by (auto simp: Let_def)
  next
    case (Suc k)
    with "3.prems" have "(y # ys) ! k \<le> (y # ys) ! ?m"
      by (intro "3.IH") simp
    with Suc show ?thesis by (auto simp: Let_def)
  qed
qed

lemma GetArgMax_first:
  "j < GetArgMax scores \<Longrightarrow> scores ! j < scores ! GetArgMax scores"
proof (induction scores arbitrary: j rule: GetArgMax.induct)
  case 1
  then show ?case by simp
next
  case (2 x)
  then show ?case by simp
next
  case (3 x y ys)
  let ?m = "GetArgMax (y # ys)"
  from "3.prems" have big: "\<not> (y # ys) ! ?m \<le> x" and j: "j < Suc ?m"
    by (auto simp: Let_def split: if_splits)
  show ?case
  proof (cases j)
    case 0
    with big show ?thesis by (auto simp: Let_def)
  next
    case (Suc k)
    with j have "(y # ys) ! k < (y # ys) ! ?m"
      by (intro "3.IH") simp
    with Suc big show ?thesis by (auto simp: Let_def)
  qed
qed

lemma GetInMemoryFileNameForTaskInput_nonempty:
  "GetInMemoryFileNameForTaskInput env input_name context \<noteq> [] \<longleftrightarrow>
     (\<exists>file. GetInput env context input_name = [file] \<and> file \<noteq> [])"
  by (auto simp: GetInMemoryFileNameForTaskInput_def split: list.splits)

lemma GetInMemoryFileNameForTaskInput_single:
  "GetInput env context input_name = [file] \<Longrightarrow>
   GetInMemoryFileNameForTaskInput env input_name context = file"
  by (simp add: GetInMemoryFileNameForTaskInput_def)

lemma ParseNetworkParams_keeps:
  "valid (snd (ParseNetworkParams env model_data context this)) = valid this \<and>
   languages (snd (ParseNetworkParams env model_data context this)) = languages this"
  by (simp add: ParseNetworkParams_def Let_def split: option.splits)

lemma ParseNetworkParams_True:
  "fst (ParseNetworkParams env model_data context this) \<longleftrightarrow>
     (\<exists>file bytes proto.
        GetInput env context ''language-identifier-network'' = [file] \<and> file \<noteq> [] \<and>
        GetBytesForInputFile env model_data file = Some bytes \<and>
        ParseEmbeddingNetworkProto env bytes = Some proto \<and>
        EmbeddingNetworkParamsFromProto_is_valid env proto \<and>
        network_params (snd (ParseNetworkParams env model_data context this)) = Some proto)"
proof (cases "GetInMemoryFileNameForTaskInput env ''language-identifier-network'' context = []")
  case True
  then have "\<not> (\<exists>file. GetInput env context ''language-identifier-network'' = [file] \<and> file \<noteq> [])"
    using GetInMemoryFileNameForTaskInput_nonempty [of env "''language-identifier-network''" "context"]
    by simp
  with True show ?thesis by (auto simp: ParseNetworkParams_def)
next
  case False
  then obtain fname where fname: "GetInput env context ''language-identifier-network'' = [fname]"
    and ne: "fname \<noteq> []"
    using GetInMemoryFileNameForTaskInput_nonempty [of env "''language-identifier-network''" "context"]
    by auto
  then have name: "GetInMemoryFileNameForTaskInput env ''language-identifier-network'' context = fname"
    by (simp add: GetInMemoryFileNameForTaskInput_single)
  show ?thesis
    using fname ne
    by (auto simp: ParseNetworkParams_def name split: option.splits)
qed

lemma ParseListOfKnownLanguages_keeps:
  "valid (snd (ParseListOfKnownLanguages env model_data context this)) = valid this \<and>
   network_params (snd (ParseListOfKnownLanguages env model_data context this)) =
     network_params this"
  by (simp add: ParseListOfKnownLanguages_def Let_def split: option.splits)

lemma ParseListOfKnownLanguages_True:
  "fst (ParseListOfKnownLanguages env model_data context this) \<and>
   languages (snd (ParseListOfKnownLanguages env model_data context this)) = elements \<longleftrightarrow>
     (\<exists>file bytes dictionary.
        GetInput env context ''language-name-id-map'' = [file] \<and> file \<noteq> [] \<and>
        GetBytesForInputFile env model_data file = Some bytes \<and>
        ParseListOfStrings env bytes = Some [dictionary] \<and>
        ParseListOfStrings env dictionary = Some elements)"
proof (cases "GetInMemoryFileNameForTaskInput env ''language-name-id-map'' context = []")
  case True
  then have "\<not> (\<exists>file. GetInput env context ''language-name-id-map'' = [file] \<and> file \<noteq> [])"
    using GetInMemoryFileNameForTaskInput_nonempty [of env "''language-name-id-map''" "context"]
    by simp
  with True show ?thesis by (auto simp: ParseListOfKnownLanguages_def)
next
  case False
  then obtain fname where fname: "GetInput env context ''language-name-id-map'' = [fname]"
    and ne: "fname \<noteq> []"
    using GetInMemoryFileNameForTaskInput_nonempty [of env "''language-name-id-map''" "context"]
    by auto
  then have name: "GetInMemoryFileNameForTaskInput env ''language-name-id-map'' context = fname"
    by (simp add: GetInMemoryFileNameForTaskInput_single)
  have one: "length records = Suc 0 \<longleftrightarrow> (\<exists>r. records = [r])" for records :: "string list"
    by (cases records) auto
  show ?thesis
    using fname ne
    by (auto simp: ParseListOfKnownLanguages_def name one split: option.splits)
qed


lemma Initialize_valid_iff:
  "valid (Initialize env mmap_handle this) \<and>
   languages (Initialize env mmap_handle this) = elements \<longleftrightarrow>
     (\<exists>model_bytes context proto.
        mmap_handle = Some model_bytes \<and>
        GetTaskSpec env model_bytes = Some context \<and>
        fst (ParseNetworkParams env model_bytes context (this\<lparr>valid := False\<rparr>)) \<and>
        network_params (snd (ParseNetworkParams env model_bytes context
          (this\<lparr>valid := False\<rparr>))) = Some proto \<and>
        fst (ParseListOfKnownLanguages env model_bytes context
          (snd (ParseNetworkParams env model_bytes context (this\<lparr>valid := False\<rparr>)))) \<and>
        languages (snd (ParseListOfKnownLanguages env model_bytes context
          (snd (ParseNetworkParams env model_bytes context (this\<lparr>valid := False\<rparr>))))) =
          elements \<and>
        EmbeddingNetwork_is_valid env proto \<and>
        LangIdBrainInterface_Init env context)"
proof (cases mmap_handle)
  case None
  then show ?thesis by (simp add: Initialize_def)
next
  case (Some model_bytes)
  show ?thesis
  proof (cases "GetTaskSpec env model_bytes")
    case None
    with Some show ?thesis by (simp add: Initialize_def)
  next
    case (Some ctx)
    let ?p = "ParseNetworkParams env model_bytes ctx (this\<lparr>valid := False\<rparr>)"
    let ?l = "ParseListOfKnownLanguages env model_bytes ctx (snd ?p)"
    have vp: "\<not> valid (snd ?p)"
      using ParseNetworkParams_keeps [of env model_bytes ctx "this\<lparr>valid := False\<rparr>"]
      by simp
    have vl: "\<not> valid (snd ?l)" and np: "network_params (snd ?l) = network_params (snd ?p)"
      using ParseListOfKnownLanguages_keeps [of env model_bytes ctx "snd ?p"] vp
      by simp_all
    obtain okp thisp where p: "?p = (okp, thisp)" by (cases ?p)
    obtain okl thisl where l: "ParseListOfKnownLanguages env model_bytes ctx thisp = (okl, thisl)"
      by (cases "ParseListOfKnownLanguages env model_bytes ctx thisp")
    from p l vp vl np have facts: "\<not> valid thisp" "\<not> valid thisl"
      "network_params thisl = network_params thisp" by simp_all
    show ?thesis
      using \<open>mmap_handle = Some model_bytes\<close> Some p l facts
      by (cases okp; cases okl; cases "network_params thisp")
        (auto simp: Initialize_def Let_def)
  qed
qed

lemma UTF8ToUnicodeText_ascii:
  "is_ascii s \<Longrightarrow> UTF8ToUnicodeText s = map (\<lambda>c. [c]) s"
  by (induction s) (simp_all add: is_ascii_def OneCharLen_def)

lemma UTF8Substring_singletons:
  "UTF8Substring (map (\<lambda>c. [c]) s) a b = take (b - a) (drop a s)"
proof -
  have "concat (map (\<lambda>c. [c]) xs) = xs" for xs :: string
    by (induction xs) simp_all
  then show ?thesis
    by (simp add: UTF8Substring_def take_map drop_map)
qed

lemma trim_cuts_apart:
  "2 * n < r - l \<Longrightarrow> trim_cuts n l r = (l + n, r - n)"
proof (induction n arbitrary: l r)
  case 0
  then show ?case by simp
next
  case (Suc n)
  then have "l < r" and "l + 1 < r" and "2 * n < (r - 1) - (l + 1)" by simp_all
  then show ?case using Suc.IH [of "r - 1" "l + 1"] by (simp add: Let_def)
qed

declare slide_chargrams.simps [simp del]

lemma slide_chargrams_map:
  "slide_chargrams cps s e it_end =
     map (\<lambda>j. UTF8Substring cps (s + j) (e + j)) [0 ..< it_end + 1 - e]"
proof (induction cps s e it_end rule: slide_chargrams.induct)
  case (1 cps s e it_end)
  show ?case
  proof (cases "e \<le> it_end")
    case False
    then show ?thesis by (simp add: slide_chargrams.simps [of cps s e it_end])
  next
    case True
    then have "[0 ..< it_end + 1 - e] = 0 # map Suc [0 ..< it_end + 1 - (e + 1)]"
      by (simp add: upt_conv_Cons map_Suc_upt Suc_diff_le)
    then show ?thesis
      using True "1.IH"
      by (simp add: slide_chargrams.simps [of cps s e it_end] comp_def)
  qed
qed

lemma advance_chargram_end_eq:
  "advance_chargram_end n e it_end =
     (if n = 0 \<or> e + n < it_end then (e + n, True) else (max (e + 1) it_end, False))"
proof (induction n arbitrary: e)
  case 0
  then show ?case by simp
next
  case (Suc n)
  then show ?case by (auto simp: max_def)
qed

lemma static_cast_int_small: "n < 2 ^ 31 \<Longrightarrow> static_cast_int n = int n"
proof -
  assume n: "n < 2 ^ 31"
  have "sint (word_of_nat n :: int32) = signed_take_bit 31 (int n)"
    by (simp only: signed_of_nat) simp
  also have "\<dots> = int n"
    using n by (intro signed_take_bit_int_eq_self) simp_all
  finally show ?thesis by (simp add: static_cast_int_def)
qed

lemma substr_window:
  assumes "0 \<le> i" and "i \<le> int (length fw)" and "0 \<le> k"
  shows "substr fw i k = Inr (take (nat k) (drop (nat i) fw))"
proof -
  have "take (nat (min k (int (length fw) - i))) (drop (nat i) fw) = take (nat k) (drop (nat i) fw)"
  proof (cases "k \<le> int (length fw) - i")
    case True
    then show ?thesis by (simp add: min_def)
  next
    case False
    then have "length (drop (nat i) fw) \<le> nat (min k (int (length fw) - i))"
      and "length (drop (nat i) fw) \<le> nat k"
      using assms by (simp_all add: min_def)
    then show ?thesis by simp
  qed
  then show ?thesis using assms by (simp add: substr_def)
qed

lemma chargrams_ascii_unigrams:
  assumes "2 \<le> length fw"
  shows "chargrams_ascii fw 1 = map Inr (windows fw 1 1 (length fw - 2))"
proof (rule nth_equalityI)
  show "length (chargrams_ascii fw 1) = length (map Inr (windows fw 1 1 (length fw - 2)))"
    using assms by (simp add: chargrams_ascii_def windows_def)
next
  fix j assume "j < length (chargrams_ascii fw 1)"
  then have j: "j < length fw - 2" using assms by (simp add: chargrams_ascii_def)
  then have "[1 .. int (length fw) - 1 - 1] ! j = 1 + int j"
    by (intro nth_upto) simp
  moreover have "substr fw (1 + int j) 1 = Inr (take 1 (drop (1 + j) fw))"
    using j substr_window [of "1 + int j" fw 1] by (simp add: nat_add_distrib)
  ultimately show "chargrams_ascii fw 1 ! j = map Inr (windows fw 1 1 (length fw - 2)) ! j"
    using j by (simp add: chargrams_ascii_def windows_def)
qed


lemma chargrams_ascii_ngrams:
  assumes "chargram_order \<noteq> 1" and "0 \<le> sint chargram_order" and "length fw < 2 ^ 31"
  shows "chargrams_ascii fw chargram_order =
     map Inr (windows fw (nat (sint chargram_order)) 0
                (length fw + 1 - nat (sint chargram_order)))"
proof (rule nth_equalityI)
  let ?k = "sint chargram_order"
  have cast: "static_cast_int (length fw) = int (length fw)"
    using assms(3) by (rule static_cast_int_small)
  have size: "size_t ?k = ?k" using assms(2) by (rule size_t_sint)
  have count: "nat (int (length fw) - ?k + 1) = length fw + 1 - nat ?k"
    using assms(2) by linarith
  show len: "length (chargrams_ascii fw chargram_order) =
      length (map Inr (windows fw (nat ?k) 0 (length fw + 1 - nat ?k)))"
    using assms(1) count by (simp add: chargrams_ascii_def windows_def cast)
  fix j assume "j < length (chargrams_ascii fw chargram_order)"
  then have j: "j < length fw + 1 - nat ?k" using len by (simp add: windows_def)
  then have "[0 .. int (length fw) - ?k + 1 - 1] ! j = 0 + int j"
    using assms(2) by (intro nth_upto) linarith
  moreover have "substr fw (int j) ?k = Inr (take (nat ?k) (drop j fw))"
    using j assms(2) substr_window [of "int j" fw ?k] by simp
  ultimately show "chargrams_ascii fw chargram_order ! j =
      map Inr (windows fw (nat ?k) 0 (length fw + 1 - nat ?k)) ! j"
    using j assms(1) by (simp add: chargrams_ascii_def windows_def cast size)
qed

lemma chargrams_unicode_unigrams:
  assumes "2 \<le> length fw" and "length fw \<noteq> 3"
  shows "chargrams_unicode (map (\<lambda>c. [c]) fw) 1 = windows fw 1 1 (length fw - 2)"
proof (cases "length fw = 2")
  case True
  then show ?thesis
    by (simp add: chargrams_unicode_def advance_chargram_end_eq windows_def Let_def)
next
  case False
  with assms have "3 < length fw" by simp
  then have "Suc (Suc 0) < length fw - Suc 0" and "length fw - Suc (Suc 0) = length fw - 2"
    by simp_all
  then show ?thesis
    by (simp add: chargrams_unicode_def advance_chargram_end_eq slide_chargrams_map
        UTF8Substring_singletons windows_def Let_def)
qed

lemma chargrams_unicode_ngrams:
  assumes "chargram_order \<noteq> 1" and "0 \<le> sint chargram_order"
    and "sint chargram_order \<noteq> int (length fw)" and "fw \<noteq> []"
  shows "chargrams_unicode (map (\<lambda>c. [c]) fw) chargram_order =
     windows fw (nat (sint chargram_order)) 0 (length fw + 1 - nat (sint chargram_order))"
proof -
  let ?k = "nat (sint chargram_order)"
  have k: "?k \<noteq> length fw" using assms(2,3) by linarith
  show ?thesis
  proof (cases "?k = 0 \<or> ?k < length fw")
    case True
    then show ?thesis
      using assms(1)
      by (simp add: chargrams_unicode_def advance_chargram_end_eq slide_chargrams_map
          UTF8Substring_singletons windows_def Let_def)
  next
    case False
    with k have "length fw + 1 - ?k = 0" by simp
    with False show ?thesis
      using assms(1)
      by (simp add: chargrams_unicode_def advance_chargram_end_eq windows_def Let_def)
  qed
qed

lemma collect_map_Inr:
  "collect (hash_chargram ext this) (map Inr xs) = collect (HashToken ext this) xs"
  by (induction xs) (simp_all add: hash_chargram_def split: sum.splits)


lemma chargrams_agree:
  assumes "2 \<le> length fw" and "length fw < 2 ^ 31" and "0 \<le> sint k"
    and "if k = 1 then length fw \<noteq> 3 else sint k \<noteq> int (length fw)"
  shows "chargrams_ascii fw k = map Inr (chargrams_unicode (map (\<lambda>c. [c]) fw) k)"
proof (cases "k = 1")
  case True
  with assms show ?thesis
    by (simp add: chargrams_ascii_unigrams chargrams_unicode_unigrams)
next
  case False
  moreover from assms(1) have "fw \<noteq> []" by auto
  ultimately show ?thesis
    using assms by (simp add: chargrams_ascii_ngrams chargrams_unicode_ngrams)
qed

lemma MapDigitsToZeroUnicode_ascii:
  assumes "is_ascii s"
    and "\<forall>c. (of_char c :: nat) < 128 \<longrightarrow> u_isdigit ext [c] = isdigit c"
  shows "MapDigitsToZeroUnicode ext s = Inr (map (\<lambda>c. [c]) (MapDigitsToZeroAscii s))"
proof -
  have "(if u_isdigit ext [c] then ''0'' else [c]) = [if isdigit c then CHR ''0'' else c]"
    if "c \<in> set s" for c
    using that assms by (auto simp: is_ascii_def list_all_iff)
  moreover have "structurally_valid_utf8 s"
    using assms(1) by (rule structurally_valid_utf8_ascii)
  ultimately show ?thesis
    using assms(1)
    by (simp add: MapDigitsToZeroUnicode_valid MapDigitsToZeroAscii_map
        UTF8ToUnicodeText_ascii comp_def)
qed

lemma is_ascii_MapDigitsToZeroAscii:
  "is_ascii s \<Longrightarrow> is_ascii (MapDigitsToZeroAscii s)"
  by (auto simp: is_ascii_def list_all_iff MapDigitsToZeroAscii_map)


lemma sdiv_two_nonneg: "0 \<le> m \<Longrightarrow> m sdiv 2 = m div 2" for m :: int
  by (simp add: signed_divide_int_def sgn_if)

lemma feature_words_agree:
  assumes ascii: "is_ascii (token_value token)"
    and digits: "\<forall>c. (of_char c :: nat) < 128 \<longrightarrow> u_isdigit ext [c] = isdigit c"
    and nonneg: "0 \<le> sint (max_word_length opts)"
    and parity: "even (sint (max_word_length opts)) \<or>
                 int (length (token_value token)) \<noteq> sint (max_word_length opts)"
    and small: "length (token_value token) + 2 < 2 ^ 31"
  shows "\<exists>fw. FeatureWordAscii opts token = Inr fw \<and>
           FeatureWordUnicode ext opts token = Inr fw \<and>
           is_ascii fw \<and> 2 \<le> length fw \<and> length fw \<le> length (token_value token) + 2"
proof -
  let ?mwl = "sint (max_word_length opts)"
  define word where "word = (if remap_digits opts then MapDigitsToZeroAscii (token_value token)
                  else token_value token)"
  define h where "h = nat (?mwl sdiv 2)"
  have wa: "is_ascii word"
    using ascii by (simp add: word_def is_ascii_MapDigitsToZeroAscii)
  have len: "length word = length (token_value token)"
    by (simp add: word_def length_MapDigitsToZeroAscii)
  have cps: "(if remap_digits opts then MapDigitsToZeroUnicode ext (token_value token)
              else Inr (UTF8ToUnicodeText (token_value token))) = Inr (map (\<lambda>c. [c]) word)"
    using ascii digits
    by (simp add: word_def MapDigitsToZeroUnicode_ascii UTF8ToUnicodeText_ascii)
  have sdiv: "?mwl sdiv 2 = ?mwl div 2"
    using nonneg by (rule sdiv_two_nonneg)
  have h: "int h = ?mwl div 2" using nonneg by (simp add: h_def sdiv)
  have "?mwl div 2 < 2 ^ 64"
    using sint_int32_bounds(2) [of "max_word_length opts"] by simp
  then have half: "size_t (?mwl sdiv 2) = int h"
    using nonneg by (simp add: sdiv h size_t_def)
  have full: "size_t ?mwl = ?mwl" using nonneg by (rule size_t_sint)
  have unicode: "FeatureWordUnicode ext opts token =
      (let cuts = trim_cuts h 0 (length word)
       in if fst cuts = snd cuts then Inr (''^'' @ word @ ''$'')
          else Inr (''^'' @ take (fst cuts) word @ [CHR 0x01] @ drop (snd cuts) word @ ''$''))"
    unfolding FeatureWordUnicode_def cps Let_def
    by (simp add: UTF8Substring_singletons h_def)
  have ascii_chars: "is_ascii (''^'' @ xs @ [CHR 0x01] @ ys @ ''$'')"
    if "is_ascii xs" and "is_ascii ys" for xs ys
    using that by (simp add: is_ascii_def)
  have sub: "is_ascii (take n word)" "is_ascii (drop n word)" for n
    using wa by (auto simp: is_ascii_def list_all_iff dest: in_set_takeD in_set_dropD)
  show ?thesis
  proof (cases "?mwl < int (length word)")
    case True
    then have apart: "2 * h < length word - 0" and hl: "h \<le> length word" using h by linarith+
    then have cuts: "trim_cuts h 0 (length word) = (h, length word - h)"
      using trim_cuts_apart [of h "length word" 0] by simp
    have u: "FeatureWordUnicode ext opts token =
        Inr (''^'' @ take h word @ [CHR 0x01] @ drop (length word - h) word @ ''$'')"
      using apart by (simp add: unicode cuts Let_def)
    have "int (length word) < 2 ^ 31" using small len by simp
    also have "(2 :: int) ^ 31 < 2 ^ 64" by simp
    finally have "int (length word) - int h < 2 ^ 64" by simp
    then have pos: "size_t (int (length word) - int h) = int (length word) - int h"
      using hl by (simp add: size_t_def)
    have nat_eq: "nat (int (length word) - int h) = length word - h"
      using hl by linarith
    have front: "substr word 0 (int h) = Inr (take h word)"
      using hl substr_window [of 0 word "int h"] by simp
    have rear: "substr word (int (length word) - int h) (int h) =
        Inr (drop (length word - h) word)"
      using hl substr_window [of "int (length word) - int h" word "int h"]
      by (simp add: nat_eq)
    have a: "FeatureWordAscii opts token =
        Inr (''^'' @ take h word @ [CHR 0x01] @ drop (length word - h) word @ ''$'')"
      using True
      by (simp add: FeatureWordAscii_def full half pos front rear Let_def flip: word_def)
    show ?thesis
      using a u ascii_chars [OF sub(1) sub(2)] hl len apart by simp
  next
    case False
    then have "length word - 0 \<le> 2 * h"
      using parity h len by (auto elim!: evenE) 
    then have "fst (trim_cuts h 0 (length word)) = snd (trim_cuts h 0 (length word))"
      by (intro trim_cuts_meet) simp_all
    then have u: "FeatureWordUnicode ext opts token = Inr (''^'' @ word @ ''$'')"
      by (simp add: unicode)
    have a: "FeatureWordAscii opts token = Inr (''^'' @ word @ ''$'')"
      using False by (simp add: FeatureWordAscii_def full Let_def flip: word_def)
    show ?thesis
      using a u wa len by (simp add: is_ascii_def)
  qed
qed

lemma windows_interior:
  "windows (''^'' @ w @ ''$'') 1 1 (length w) = map (\<lambda>c. [c]) w"
proof (rule nth_equalityI)
  show "length (windows (''^'' @ w @ ''$'') 1 1 (length w)) = length (map (\<lambda>c. [c]) w)"
    by (simp add: windows_def)
  fix j assume "j < length (windows (''^'' @ w @ ''$'') 1 1 (length w))"
  then have j: "j < length w" by (simp add: windows_def)
  then have "drop j w = w ! j # drop (Suc j) w" by (simp add: Cons_nth_drop_Suc)
  then have "take 1 (drop j (w @ ''$'')) = [w ! j]" using j by simp
  then show "windows (''^'' @ w @ ''$'') 1 1 (length w) ! j = map (\<lambda>c. [c]) w ! j"
    using j by (simp add: windows_def)
qed

section \<open>The claims\<close>

text \<open>
  C1. The claim is that the ASCII and the Unicode extractor give the same hash ids on every
  ASCII token. They do not: the Unicode loop that completes the first window tests
  \<^verbatim>\<open>it_chargram_end >= it_end\<close> after each step, also after the last one, so it drops
  the n-gram that spans the whole range. For the one-letter token \<^verbatim>\<open>x\<close> and order 1 the
  ASCII extractor returns the hash of \<^verbatim>\<open>x\<close> and the Unicode extractor returns nothing,
  whatever the fingerprint.
\<close>

theorem ascii_unicode_differ_on_one_letter:
  "ExtractCharactergramFeaturesAscii ext
     (TokenFeatureExtractor_new ext
        \<lparr>num_buckets = 1000, chargram_orders = [1], max_word_length = 20,
         remap_digits = False, unicode_aware_features = True, extract_case_feature = False,
         extract_selection_mask_feature = False, regexp_features = []\<rparr>)
     \<lparr>token_value = ''x'', is_padding = False, is_in_span = False\<rparr> =
     Inr [ucast (Fingerprint64 ext ''x'' mod 1000)] \<and>
   ExtractCharactergramFeaturesUnicode ext
     (TokenFeatureExtractor_new ext
        \<lparr>num_buckets = 1000, chargram_orders = [1], max_word_length = 20,
         remap_digits = False, unicode_aware_features = True, extract_case_feature = False,
         extract_selection_mask_feature = False, regexp_features = []\<rparr>)
     \<lparr>token_value = ''x'', is_padding = False, is_in_span = False\<rparr> = Inr []"
proof -
  let ?opts = "\<lparr>num_buckets = 1000, chargram_orders = [1], max_word_length = 20,
         remap_digits = False, unicode_aware_features = True, extract_case_feature = False,
         extract_selection_mask_feature = False, regexp_features = []\<rparr>"
  let ?tok = "\<lparr>token_value = ''x'', is_padding = False, is_in_span = False\<rparr>"
  have fwa: "FeatureWordAscii ?opts ?tok = Inr ''^x$''" by code_simp
  have ca: "chargrams_ascii ''^x$'' 1 = [Inr ''x'']" by code_simp
  have cuts: "trim_cuts 10 0 (length (UTF8ToUnicodeText ''x'')) = (1, 1)"
    by code_simp
  have cat: "UTF8Substring (UTF8ToUnicodeText ''x'') 0 (length (UTF8ToUnicodeText ''x'')) = ''x''"
    by code_simp
  have fwu: "FeatureWordUnicode ext ?opts ?tok = Inr ''^x$''"
    by (simp add: FeatureWordUnicode_def cuts cat Let_def del: UTF8ToUnicodeText.simps)
  have cu: "chargrams_unicode (UTF8ToUnicodeText ''^x$'') 1 = []" by code_simp
  have nb: "(scast (1000 :: int32) :: uint64) = 1000" by code_simp
  have a: "ExtractCharactergramFeaturesAscii ext (TokenFeatureExtractor_new ext ?opts) ?tok =
      Inr [ucast (Fingerprint64 ext ''x'' mod 1000)]"
    by (simp add: ExtractCharactergramFeaturesAscii_def TokenFeatureExtractor_new_def fwa ca
        hash_chargram_def HashToken_def nb)
  have u: "ExtractCharactergramFeaturesUnicode ext (TokenFeatureExtractor_new ext ?opts) ?tok =
      Inr []"
    by (simp add: ExtractCharactergramFeaturesUnicode_def TokenFeatureExtractor_new_def fwu cu
        del: UTF8ToUnicodeText.simps)
  show ?thesis using a u by (rule conjI)
qed

text \<open>
  C2, amended. \<open>Initialize\<close> makes the classifier valid, with the language list
  \<open>elements\<close>, exactly when the model bytes are mapped, the task spec is read, the input
  of the network has one part whose file holds a valid \<^verbatim>\<open>EmbeddingNetworkProto\<close>, the
  input of the language list has one part whose file parses as a list with one record, this
  record parses as the list \<open>elements\<close>, the network built on the parameters is valid
  and the brain interface initialises. The number of entries of the language list is not
  compared with anything.
\<close>

theorem Initialize_accepts:
  "(valid (Initialize env mmap_handle this) \<and>
    languages (Initialize env mmap_handle this) = elements) =
   (\<exists>model_bytes context network_file network_bytes proto languages_file languages_bytes
       dictionary.
      mmap_handle = Some model_bytes \<and>
      GetTaskSpec env model_bytes = Some context \<and>
      GetInput env context ''language-identifier-network'' = [network_file] \<and>
      network_file \<noteq> [] \<and>
      GetBytesForInputFile env model_bytes network_file = Some network_bytes \<and>
      ParseEmbeddingNetworkProto env network_bytes = Some proto \<and>
      EmbeddingNetworkParamsFromProto_is_valid env proto \<and>
      GetInput env context ''language-name-id-map'' = [languages_file] \<and>
      languages_file \<noteq> [] \<and>
      GetBytesForInputFile env model_bytes languages_file = Some languages_bytes \<and>
      ParseListOfStrings env languages_bytes = Some [dictionary] \<and>
      ParseListOfStrings env dictionary = Some elements \<and>
      EmbeddingNetwork_is_valid env proto \<and>
      LangIdBrainInterface_Init env context)"
  (is "?lhs = ?rhs")
proof
  assume ?lhs
  then obtain model_bytes ctx proto where
    h: "mmap_handle = Some model_bytes" "GetTaskSpec env model_bytes = Some ctx"
    and p: "fst (ParseNetworkParams env model_bytes ctx (this\<lparr>valid := False\<rparr>))"
    and n: "network_params (snd (ParseNetworkParams env model_bytes ctx
          (this\<lparr>valid := False\<rparr>))) = Some proto"
    and l: "fst (ParseListOfKnownLanguages env model_bytes ctx
          (snd (ParseNetworkParams env model_bytes ctx (this\<lparr>valid := False\<rparr>)))) \<and>
        languages (snd (ParseListOfKnownLanguages env model_bytes ctx
          (snd (ParseNetworkParams env model_bytes ctx (this\<lparr>valid := False\<rparr>))))) =
          elements"
    and v: "EmbeddingNetwork_is_valid env proto" "LangIdBrainInterface_Init env ctx"
    unfolding Initialize_valid_iff by blast
  from p n obtain network_file network_bytes where
    "GetInput env ctx ''language-identifier-network'' = [network_file]" "network_file \<noteq> []"
    "GetBytesForInputFile env model_bytes network_file = Some network_bytes"
    "ParseEmbeddingNetworkProto env network_bytes = Some proto"
    "EmbeddingNetworkParamsFromProto_is_valid env proto"
    unfolding ParseNetworkParams_True by auto
  moreover from l obtain languages_file languages_bytes dictionary where
    "GetInput env ctx ''language-name-id-map'' = [languages_file]" "languages_file \<noteq> []"
    "GetBytesForInputFile env model_bytes languages_file = Some languages_bytes"
    "ParseListOfStrings env languages_bytes = Some [dictionary]"
    "ParseListOfStrings env dictionary = Some elements"
    unfolding ParseListOfKnownLanguages_True by auto
  ultimately show ?rhs using h v by blast
next
  assume ?rhs
  then obtain model_bytes ctx network_file network_bytes proto languages_file
      languages_bytes dictionary where
    h: "mmap_handle = Some model_bytes" "GetTaskSpec env model_bytes = Some ctx"
    and p: "GetInput env ctx ''language-identifier-network'' = [network_file]"
      "network_file \<noteq> []"
      "GetBytesForInputFile env model_bytes network_file = Some network_bytes"
      "ParseEmbeddingNetworkProto env network_bytes = Some proto"
      "EmbeddingNetworkParamsFromProto_is_valid env proto"
    and l: "GetInput env ctx ''language-name-id-map'' = [languages_file]"
      "languages_file \<noteq> []"
      "GetBytesForInputFile env model_bytes languages_file = Some languages_bytes"
      "ParseListOfStrings env languages_bytes = Some [dictionary]"
      "ParseListOfStrings env dictionary = Some elements"
    and v: "EmbeddingNetwork_is_valid env proto" "LangIdBrainInterface_Init env ctx"
    by blast
  let ?this1 = "this\<lparr>valid := False\<rparr>"
  have name: "GetInMemoryFileNameForTaskInput env ''language-identifier-network'' ctx =
      network_file"
    using p(1) by (rule GetInMemoryFileNameForTaskInput_single)
  have pp: "ParseNetworkParams env model_bytes ctx ?this1 =
      (True, ?this1\<lparr>network_params := Some proto\<rparr>)"
    using p by (simp add: ParseNetworkParams_def name)
  have ll: "fst (ParseListOfKnownLanguages env model_bytes ctx
      (snd (ParseNetworkParams env model_bytes ctx ?this1))) \<and>
    languages (snd (ParseListOfKnownLanguages env model_bytes ctx
      (snd (ParseNetworkParams env model_bytes ctx ?this1)))) = elements"
    unfolding ParseListOfKnownLanguages_True using l by blast
  show ?lhs
    unfolding Initialize_valid_iff using h pp ll v by auto
qed

theorem Initialize_accepts_witness:
  "valid (LangIdImpl_new (example_model [''en'', ''fr''] [0.9, 0.1]) (Some ''model'') True) \<and>
   languages (LangIdImpl_new (example_model [''en'', ''fr''] [0.9, 0.1]) (Some ''model'') True) =
     [''en'', ''fr''] \<and>
   \<not> valid (LangIdImpl_new (example_model [''en'', ''fr''] [0.9, 0.1]) None True)"
proof -
  have "(valid (LangIdImpl_new (example_model [''en'', ''fr''] [0.9, 0.1]) (Some ''model'') True) \<and>
   languages (LangIdImpl_new (example_model [''en'', ''fr''] [0.9, 0.1]) (Some ''model'') True) =
     [''en'', ''fr''])"
    unfolding LangIdImpl_new_def Initialize_accepts
    by (simp add: example_model_def)
  moreover have "\<not> (valid (LangIdImpl_new (example_model [''en'', ''fr''] [0.9, 0.1]) None True) \<and>
     languages (LangIdImpl_new (example_model [''en'', ''fr''] [0.9, 0.1]) None True) = [])"
    unfolding LangIdImpl_new_def Initialize_accepts
    by simp
  moreover have "languages (LangIdImpl_new (example_model [''en'', ''fr''] [0.9, 0.1]) None True) = []"
    by code_simp
  ultimately show ?thesis by blast
qed

text \<open>
  The claim has the loader reject a model whose language list and final layer differ in
  size. A model with one language whose network gives two scores is accepted.
\<close>

theorem Initialize_accepts_counterexample:
  "valid (LangIdImpl_new (example_model [''en''] [0.1, 0.9]) (Some ''model'') False) \<and>
   length (languages (LangIdImpl_new (example_model [''en''] [0.1, 0.9]) (Some ''model'') False)) = 1 \<and>
   length (ScoreLanguages (example_model [''en''] [0.1, 0.9])
     (LangIdImpl_new (example_model [''en''] [0.1, 0.9]) (Some ''model'') False) ''hello'') = 2"
  by code_simp

text \<open>
  C3, amended. \<open>FindLanguage\<close> returns the default language when the score list is
  empty (as it is for every text when the classifier is not valid), when the probability at
  the arg-max is strictly below the threshold, or when the arg-max lies past the end of the
  language list; otherwise it returns the language at the arg-max. The arg-max is the first
  index that holds the largest score.
\<close>

theorem FindLanguage_decision:
  "FindLanguage env this text =
     (let scores = ScoreLanguages env this text; label = GetArgMax scores
      in if scores = [] \<or> scores ! label < probability_threshold this \<or>
            length (languages this) \<le> label
         then default_language this
         else languages this ! label) \<and>
   (\<not> is_valid this \<longrightarrow>
      ScoreLanguages env this text = [] \<and> FindLanguage env this text = default_language this) \<and>
   (scores \<noteq> [] \<longrightarrow>
      GetArgMax scores < length scores \<and>
      (\<forall>j < length scores. scores ! j \<le> scores ! GetArgMax scores) \<and>
      (\<forall>j < GetArgMax scores. scores ! j < scores ! GetArgMax scores))"
  using GetArgMax_less [of scores] GetArgMax_greatest [of _ scores] GetArgMax_first [of _ scores]
  by (auto simp: FindLanguage_def GetLanguageForSoftmaxLabel_def ScoreLanguages_def Let_def)

theorem FindLanguage_decision_witness:
  "FindLanguage (example_model [''en'', ''fr''] [0.9, 0.1])
     (LangIdImpl_new (example_model [''en'', ''fr''] [0.9, 0.1]) (Some ''model'') False)
     ''hello'' = ''en'' \<and>
   FindLanguage (example_model [''en'', ''fr''] [0.9, 0.1])
     (SetProbabilityThreshold 0.95
        (LangIdImpl_new (example_model [''en'', ''fr''] [0.9, 0.1]) (Some ''model'') False))
     ''hello'' = [] \<and>
   \<not> is_valid (LangIdImpl_new (example_model [''en'', ''fr''] [0.9, 0.1]) None True) \<and>
   FindLanguage (example_model [''en'', ''fr''] [0.9, 0.1])
     (LangIdImpl_new (example_model [''en'', ''fr''] [0.9, 0.1]) None True) [] = [] \<and>
   GetArgMax [0.5, 0.5] = 0"
proof -
  let ?env = "example_model [''en'', ''fr''] [0.9, 0.1]"
  let ?c = "LangIdImpl_new ?env (Some ''model'') False"
  let ?bad = "LangIdImpl_new ?env None True"
  have a: "FindLanguage ?env ?c ''hello'' = ''en''"
    by (subst FindLanguage_decision [THEN conjunct1]) code_simp
  have b: "FindLanguage ?env (SetProbabilityThreshold 0.95 ?c) ''hello'' = []"
    by (subst FindLanguage_decision [THEN conjunct1]) code_simp
  have inv: "\<not> is_valid ?bad" by code_simp
  have dflt: "default_language ?bad = []" by code_simp
  have c: "FindLanguage ?env ?bad [] = []"
    using FindLanguage_decision [THEN conjunct2, THEN conjunct1, THEN mp, OF inv, of ?env "[]"]
    by (simp only: dflt)
  have "[0.5, 0.5 :: real] \<noteq> []" by simp
  then have "\<forall>j < GetArgMax [0.5, 0.5]. [0.5, 0.5 :: real] ! j < [0.5, 0.5] ! GetArgMax [0.5, 0.5]"
    and "GetArgMax [0.5, 0.5] < length [0.5, 0.5 :: real]"
    using FindLanguage_decision [THEN conjunct2, THEN conjunct2, THEN mp, of "[0.5, 0.5]"]
    by blast+
  then have d: "GetArgMax [0.5, 0.5] = 0"
    by (cases "GetArgMax [0.5, 0.5]") (auto simp: less_Suc_eq)
  show ?thesis using a b inv c d by blast
qed

text \<open>
  The claim gives the empty score list and the threshold as the only reasons for the default
  language. A valid classifier with the language list \<^verbatim>\<open>en\<close>, the scores 0.1 and 0.9
  and the threshold 0.5 returns its default language \<^verbatim>\<open>und\<close>: the arg-max is 1, past
  the end of the list.
\<close>

theorem FindLanguage_decision_counterexample:
  "is_valid (SetDefaultLanguage ''und''
      (LangIdImpl_new (example_model [''en''] [0.1, 0.9]) (Some ''model'') False)) \<and>
   ScoreLanguages (example_model [''en''] [0.1, 0.9]) (SetDefaultLanguage ''und''
      (LangIdImpl_new (example_model [''en''] [0.1, 0.9]) (Some ''model'') False)) ''hello'' =
     [0.1, 0.9] \<and>
   GetArgMax [0.1, 0.9] = 1 \<and>
   probability_threshold (SetDefaultLanguage ''und''
      (LangIdImpl_new (example_model [''en''] [0.1, 0.9]) (Some ''model'') False)) = 0.5 \<and>
   languages (SetDefaultLanguage ''und''
      (LangIdImpl_new (example_model [''en''] [0.1, 0.9]) (Some ''model'') False)) = [''en''] \<and>
   FindLanguage (example_model [''en''] [0.1, 0.9]) (SetDefaultLanguage ''und''
      (LangIdImpl_new (example_model [''en''] [0.1, 0.9]) (Some ''model'') False)) ''hello'' =
     ''und''"
  by code_simp

text \<open>
  C4, amended. \<open>FindLanguages\<close> returns one pair for every score, in order: at index
  \<open>i\<close> the language at \<open>i\<close> of the list, or the default language past the end of the
  list, with score \<open>i\<close>. When there are as many scores as languages this is the language
  list zipped with the scores. A classifier that is not valid returns the empty list. The
  threshold has no influence.
\<close>

theorem FindLanguages_pairs:
  "length (FindLanguages env this text) = length (ScoreLanguages env this text) \<and>
   (\<forall>i < length (ScoreLanguages env this text).
      FindLanguages env this text ! i =
        (if i < length (languages this) then languages this ! i else default_language this,
         ScoreLanguages env this text ! i)) \<and>
   (length (ScoreLanguages env this text) = length (languages this) \<longrightarrow>
      FindLanguages env this text = zip (languages this) (ScoreLanguages env this text)) \<and>
   (\<not> is_valid this \<longrightarrow> FindLanguages env this text = []) \<and>
   FindLanguages env (SetProbabilityThreshold t this) text = FindLanguages env this text"
proof -
  have n_pairs: "length (FindLanguages env this text) = length (ScoreLanguages env this text)"
    by (simp add: FindLanguages_def Let_def)
  have pair_at: "FindLanguages env this text ! i =
        (if i < length (languages this) then languages this ! i else default_language this,
         ScoreLanguages env this text ! i)"
    if "i < length (ScoreLanguages env this text)" for i
    using that by (simp add: FindLanguages_def GetLanguageForSoftmaxLabel_def Let_def)
  have zipped: "FindLanguages env this text = zip (languages this) (ScoreLanguages env this text)"
    if "length (ScoreLanguages env this text) = length (languages this)"
    using that n_pairs pair_at by (intro nth_equalityI) simp_all
  have invalid: "FindLanguages env this text = []" if "\<not> is_valid this"
    using that by (simp add: FindLanguages_def ScoreLanguages_def)
  show ?thesis
    using n_pairs pair_at zipped invalid FindLanguages_SetProbabilityThreshold [of env t this "text"]
    by blast
qed

theorem FindLanguages_pairs_witness:
  "FindLanguages (example_model [''en'', ''fr''] [0.9, 0.1])
     (LangIdImpl_new (example_model [''en'', ''fr''] [0.9, 0.1]) (Some ''model'') False)
     ''hello'' = [(''en'', 0.9), (''fr'', 0.1)] \<and>
   FindLanguages (example_model [''en'', ''fr''] [0.9, 0.1])
     (LangIdImpl_new (example_model [''en'', ''fr''] [0.9, 0.1]) None True) ''hello'' = []"
proof -
  let ?env = "example_model [''en'', ''fr''] [0.9, 0.1]"
  let ?c = "LangIdImpl_new ?env (Some ''model'') False"
  let ?bad = "LangIdImpl_new ?env None True"
  have same: "length (ScoreLanguages ?env ?c ''hello'') = length (languages ?c)" by code_simp
  have "FindLanguages ?env ?c ''hello'' = zip (languages ?c) (ScoreLanguages ?env ?c ''hello'')"
    using FindLanguages_pairs [of ?env ?c "''hello''"] same by blast
  also have "\<dots> = [(''en'', 0.9), (''fr'', 0.1)]" by code_simp
  finally have a: "FindLanguages ?env ?c ''hello'' = [(''en'', 0.9), (''fr'', 0.1)]" .
  have inv: "\<not> is_valid ?bad" by code_simp
  have b: "FindLanguages ?env ?bad ''hello'' = []"
    using FindLanguages_pairs [of ?env ?bad "''hello''"] inv by blast
  show ?thesis using a b by blast
qed

text \<open>
  The claim has one pair for every entry of the language list. A valid classifier with the
  languages \<^verbatim>\<open>en\<close> and \<^verbatim>\<open>fr\<close> whose network gives one score returns one pair.
\<close>

theorem FindLanguages_pairs_counterexample:
  "is_valid (LangIdImpl_new (example_model [''en'', ''fr''] [1]) (Some ''model'') False) \<and>
   languages (LangIdImpl_new (example_model [''en'', ''fr''] [1]) (Some ''model'') False) =
     [''en'', ''fr''] \<and>
   FindLanguages (example_model [''en'', ''fr''] [1])
     (LangIdImpl_new (example_model [''en'', ''fr''] [1]) (Some ''model'') False) ''hello'' =
     [(''en'', 1)]"
  by code_simp

text \<open>
  C5, amended. With non-null outputs, \<open>Extract\<close> on an extractor built by the constructor
  appends to the caller's dense vector, in this order: the case value when enabled, the
  selection mask value when enabled, then one value per configured pattern. The case value
  is 1 when the token is not empty and its first codepoint is uppercase for ICU (Unicode
  mode) or its first byte is uppercase for the C library (ASCII mode), and -1 otherwise. The
  mask value is 1 in the span, and otherwise -1 in Unicode mode and 0 in ASCII mode. A pattern
  gives 1 when found and -1 when not found or when it did not compile; the constructor keeps
  such a pattern and does not fail.
\<close>

theorem Extract_dense_values:
  "Extract ext (TokenFeatureExtractor_new ext opts) token (Some sparse) (Some dense) =
     (case ExtractCharactergramFeatures ext (TokenFeatureExtractor_new ext opts) token of
        Inl e \<Rightarrow> Inl e
      | Inr ids \<Rightarrow>
          Inr (True, Some ids,
               Some (dense @
                 (if extract_case_feature opts then
                    [if token_value token \<noteq> [] \<and>
                        (if unicode_aware_features opts
                         then u_isupper ext (hd (UTF8ToUnicodeText (token_value token)))
                         else isupper (hd (token_value token)))
                     then 1 else - 1]
                  else []) @
                 (if extract_selection_mask_feature opts then
                    [if is_in_span token then 1
                     else if unicode_aware_features opts then - 1 else 0]
                  else []) @
                 map (\<lambda>pattern.
                        case RegexPattern_compile ext pattern of
                          None \<Rightarrow> - 1
                        | Some p \<Rightarrow>
                            if RegexMatcher_find ext p (token_value token) then 1 else - 1)
                   (regexp_features opts))))"
  by (simp add: Extract_def push_regexp_features_eq push_selection_mask_feature_def
      push_case_feature_def TokenFeatureExtractor_new_def comp_def split: sum.splits)

theorem Extract_dense_values_witness:
  "Extract example_externals
     (TokenFeatureExtractor_new example_externals (example_options True [] 20))
     \<lparr>token_value = ''Ab1'', is_padding = False, is_in_span = False\<rparr>
     (Some [7]) (Some [0.5]) = Inr (True, Some [], Some [0.5, 1, - 1, 1, - 1])"
  by (subst Extract_dense_values) code_simp

text \<open>
  The claim gives the case value as 1 whenever the first codepoint is uppercase. In ASCII
  mode the token whose only codepoint is the capital E with acute accent gets -1, although
  this codepoint is uppercase for the Unicode predicate: the C library looks at the byte C3.
\<close>

theorem Extract_dense_values_counterexample:
  "Extract example_externals
     (TokenFeatureExtractor_new example_externals (example_options False [] 20))
     \<lparr>token_value = [CHR 0xC3, CHR 0x89], is_padding = False, is_in_span = True\<rparr>
     (Some []) (Some []) = Inr (True, Some [], Some [- 1, 1, - 1, - 1]) \<and>
   u_isupper example_externals (hd (UTF8ToUnicodeText [CHR 0xC3, CHR 0x89]))"
  by code_simp

text \<open>
  C6, amended. The feature word, which is built for non-padding tokens only, is the token
  between \<^verbatim>\<open>^\<close> and \<^verbatim>\<open>$\<close>, with every digit replaced by \<^verbatim>\<open>0\<close> first when
  digits are remapped, in these cases: on the ASCII path when the token has fewer bytes than
  the maximal word length, the digits being the bytes that are digits for the C library; on
  the Unicode path when the token is structurally valid UTF-8 and has fewer codepoints than
  the maximal word length, the digits being the codepoints that are digits for ICU. The
  witness is the token \<^verbatim>\<open>abc123\<close> of the spec, whose feature word is
  \<^verbatim>\<open>^abc000$\<close> on both paths.
\<close>

theorem feature_word_of_short_token:
  "(int (length (token_value token)) < sint (max_word_length opts) \<longrightarrow>
      FeatureWordAscii opts token =
        Inr (''^'' @
             (if remap_digits opts
              then map (\<lambda>c. if isdigit c then CHR ''0'' else c) (token_value token)
              else token_value token) @ ''$'')) \<and>
   (structurally_valid_utf8 (token_value token) \<and>
    int (length (UTF8ToUnicodeText (token_value token))) < sint (max_word_length opts) \<longrightarrow>
      FeatureWordUnicode ext opts token =
        Inr (''^'' @
             (if remap_digits opts
              then concat (map (\<lambda>cp. if u_isdigit ext cp then ''0'' else cp)
                             (UTF8ToUnicodeText (token_value token)))
              else token_value token) @ ''$''))"
  using FeatureWordAscii_short [of token opts] FeatureWordUnicode_short [of token opts ext]
  by blast

theorem feature_word_of_short_token_witness:
  "int (length ''abc123'') < sint (20 :: int32) \<and>
   structurally_valid_utf8 ''abc123'' \<and>
   int (length (UTF8ToUnicodeText ''abc123'')) < sint (20 :: int32) \<and>
   FeatureWordAscii (example_options False [1] 20)
     \<lparr>token_value = ''abc123'', is_padding = False, is_in_span = False\<rparr> = Inr ''^abc000$'' \<and>
   FeatureWordUnicode example_externals (example_options True [1] 20)
     \<lparr>token_value = ''abc123'', is_padding = False, is_in_span = False\<rparr> = Inr ''^abc000$''"
proof -
  let ?tok = "\<lparr>token_value = ''abc123'', is_padding = False, is_in_span = False\<rparr>"
  let ?a = "example_options False [1] 20"
  let ?u = "example_options True [1] 20"
  have a: "int (length (token_value ?tok)) < sint (max_word_length ?a)"
    by code_simp
  have u: "structurally_valid_utf8 (token_value ?tok) \<and>
      int (length (UTF8ToUnicodeText (token_value ?tok))) < sint (max_word_length ?u)"
    by code_simp
  have l1: "int (length ''abc123'') < sint (20 :: int32)" by code_simp
  have l2: "int (length (UTF8ToUnicodeText ''abc123'')) < sint (20 :: int32)" by code_simp
  have l3: "structurally_valid_utf8 ''abc123''" by code_simp
  have "FeatureWordAscii ?a ?tok =
      Inr (''^'' @
           (if remap_digits ?a
            then map (\<lambda>c. if isdigit c then CHR ''0'' else c) (token_value ?tok)
            else token_value ?tok) @ ''$'')"
    by (rule feature_word_of_short_token [THEN conjunct1, THEN mp, OF a])
  also have "\<dots> = Inr ''^abc000$''" by code_simp
  finally have ascii: "FeatureWordAscii ?a ?tok = Inr ''^abc000$''" .
  have "FeatureWordUnicode example_externals ?u ?tok =
      Inr (''^'' @
           (if remap_digits ?u
            then concat (map (\<lambda>cp. if u_isdigit example_externals cp then ''0'' else cp)
                           (UTF8ToUnicodeText (token_value ?tok)))
            else token_value ?tok) @ ''$'')"
    by (rule feature_word_of_short_token [THEN conjunct2, THEN mp, OF u])
  also have "\<dots> = Inr ''^abc000$''" by code_simp
  finally have unicode: "FeatureWordUnicode example_externals ?u ?tok = Inr ''^abc000$''" .
  show ?thesis using l1 l2 l3 ascii unicode by blast
qed

text \<open>
  The claim counts the length of a token in codepoints and has every decimal digit replaced.
  The ASCII path does neither. The token made of the letter a and the Arabic-Indic digit
  three has two codepoints, fewer than the maximal word length 20, and its digit is a digit
  for the Unicode predicate: the ASCII path keeps the two bytes of the digit, where the
  Unicode path puts \<^verbatim>\<open>0\<close>. The token made of five capital E with acute accent has five
  codepoints, fewer than the maximal word length 8, and ten bytes: the ASCII path trims it
  to four bytes on each side of the separator.
\<close>

theorem feature_word_of_short_token_counterexample:
  "int (length (UTF8ToUnicodeText [CHR ''a'', CHR 0xD9, CHR 0xA3])) < sint (20 :: int32) \<and>
   u_isdigit example_externals [CHR 0xD9, CHR 0xA3] \<and>
   FeatureWordAscii (example_options False [1] 20)
     \<lparr>token_value = [CHR ''a'', CHR 0xD9, CHR 0xA3], is_padding = False, is_in_span = False\<rparr> =
     Inr [CHR ''^'', CHR ''a'', CHR 0xD9, CHR 0xA3, CHR ''$''] \<and>
   FeatureWordUnicode example_externals (example_options True [1] 20)
     \<lparr>token_value = [CHR ''a'', CHR 0xD9, CHR 0xA3], is_padding = False, is_in_span = False\<rparr> =
     Inr ''^a0$'' \<and>
   int (length (UTF8ToUnicodeText
     [CHR 0xC3, CHR 0x89, CHR 0xC3, CHR 0x89, CHR 0xC3, CHR 0x89, CHR 0xC3, CHR 0x89,
      CHR 0xC3, CHR 0x89])) < sint (8 :: int32) \<and>
   FeatureWordAscii (example_options False [1] 8)
     \<lparr>token_value =
        [CHR 0xC3, CHR 0x89, CHR 0xC3, CHR 0x89, CHR 0xC3, CHR 0x89, CHR 0xC3, CHR 0x89,
         CHR 0xC3, CHR 0x89],
      is_padding = False, is_in_span = False\<rparr> =
     Inr [CHR ''^'', CHR 0xC3, CHR 0x89, CHR 0xC3, CHR 0x89, CHR 0x01,
          CHR 0xC3, CHR 0x89, CHR 0xC3, CHR 0x89, CHR ''$'']"
  by code_simp







text \<open>
  C9. A softmax label outside the range of the language list is answered with the default
  language: by the lookup itself, by \<open>FindLanguages\<close> at every index past the end of the
  list, and by \<open>FindLanguage\<close> when the arg-max lies past the end of the list.
\<close>

theorem label_out_of_range_gives_default:
  "(label < 0 \<or> int (length (languages this)) \<le> label \<longrightarrow>
      GetLanguageForSoftmaxLabel this label = default_language this) \<and>
   (i < length (ScoreLanguages env this text) \<and> length (languages this) \<le> i \<longrightarrow>
      FindLanguages env this text ! i = (default_language this, ScoreLanguages env this text ! i)) \<and>
   (ScoreLanguages env this text \<noteq> [] \<and>
      length (languages this) \<le> GetArgMax (ScoreLanguages env this text) \<longrightarrow>
      FindLanguage env this text = default_language this)"
  by (auto simp: GetLanguageForSoftmaxLabel_def FindLanguages_def FindLanguage_def Let_def)

theorem label_out_of_range_gives_default_witness:
  "int (length (languages (SetDefaultLanguage ''und''
      (LangIdImpl_new (example_model [''en''] [0.1, 0.9]) (Some ''model'') False)))) \<le> 1 \<and>
   GetLanguageForSoftmaxLabel (SetDefaultLanguage ''und''
      (LangIdImpl_new (example_model [''en''] [0.1, 0.9]) (Some ''model'') False)) 1 = ''und'' \<and>
   FindLanguages (example_model [''en''] [0.1, 0.9]) (SetDefaultLanguage ''und''
      (LangIdImpl_new (example_model [''en''] [0.1, 0.9]) (Some ''model'') False)) ''hello'' ! 1 =
     (''und'', 0.9) \<and>
   FindLanguage (example_model [''en''] [0.1, 0.9]) (SetDefaultLanguage ''und''
      (LangIdImpl_new (example_model [''en''] [0.1, 0.9]) (Some ''model'') False)) ''hello'' = ''und''"
proof -
  let ?env = "example_model [''en''] [0.1, 0.9]"
  let ?c = "SetDefaultLanguage ''und'' (LangIdImpl_new ?env (Some ''model'') False)"
  have langs: "languages ?c = [''en'']" by code_simp
  have dflt: "default_language ?c = ''und''" by code_simp
  have scores: "ScoreLanguages ?env ?c ''hello'' = [0.1, 0.9]" by code_simp
  have amax: "GetArgMax [0.1, 0.9] = 1" by code_simp
  show ?thesis
    using label_out_of_range_gives_default [of 1 ?c 1 ?env "''hello''"]
    unfolding langs dflt scores amax by simp
qed

text \<open>
  C10. With a positive number of buckets every sparse id that \<open>Extract\<close> returns, the id
  of the padding token included, is at least 0 and below the number of buckets.
\<close>

theorem Extract_sparse_ids_in_range:
  assumes "0 < sint (num_buckets (options this))"
    and "Extract ext this token sparse_features dense_features = Inr (True, Some ids, dense')"
  shows "\<forall>h \<in> set ids. 0 \<le> sint h \<and> sint h < sint (num_buckets (options this))"
proof
  fix h assume h: "h \<in> set ids"
  from assms(2) have "ExtractCharactergramFeatures ext this token = Inr ids"
    by (auto simp: Extract_def split: option.splits sum.splits)
  with assms(1) show "0 \<le> sint h \<and> sint h < sint (num_buckets (options this))"
    using h by (rule ExtractCharactergramFeatures_range)
qed

theorem Extract_sparse_ids_in_range_witness:
  "0 < sint (num_buckets (options
      (TokenFeatureExtractor_new example_externals (example_options False [1, 2] 20)))) \<and>
   Extract example_externals
     (TokenFeatureExtractor_new example_externals (example_options False [1, 2] 20))
     \<lparr>token_value = [], is_padding = True, is_in_span = False\<rparr> (Some []) (Some []) =
     Inr (True, Some [335], Some [- 1, 0, - 1, - 1]) \<and>
   0 \<le> sint (335 :: int32) \<and>
   sint (335 :: int32) < sint (num_buckets (options
      (TokenFeatureExtractor_new example_externals (example_options False [1, 2] 20))))"
proof -
  let ?x = "TokenFeatureExtractor_new example_externals (example_options False [1, 2] 20)"
  have pos: "0 < sint (num_buckets (options ?x))" by code_simp
  have run: "Extract example_externals ?x
     \<lparr>token_value = [], is_padding = True, is_in_span = False\<rparr> (Some []) (Some []) =
     Inr (True, Some [335], Some [- 1, 0, - 1, - 1])"
    by code_simp
  from Extract_sparse_ids_in_range [OF pos run]
  have "0 \<le> sint (335 :: int32) \<and> sint (335 :: int32) < sint (num_buckets (options ?x))"
    by simp
  with pos run show ?thesis by blast
qed

section \<open>Further properties of the extractors\<close>

text \<open>
  Where the two extractors agree. On a token of ASCII characters, with ICU's digits being
  the C library's digits on ASCII, a maximal word length that is not negative and is even or
  differs from the length of the token, and n-gram orders that are not negative, the ASCII
  and the Unicode extractor return the same ids as long as no order asks for the one n-gram
  that spans its whole range: order 1 on a feature word of three characters, or another
  order equal to the length of the feature word.
\<close>

theorem ascii_unicode_agree:
  assumes ascii: "is_ascii (token_value token)"
    and digits: "\<forall>c. (of_char c :: nat) < 128 \<longrightarrow> u_isdigit ext [c] = isdigit c"
    and nonneg: "0 \<le> sint (max_word_length (options this))"
    and parity: "even (sint (max_word_length (options this))) \<or>
                 int (length (token_value token)) \<noteq> sint (max_word_length (options this))"
    and small: "length (token_value token) + 2 < 2 ^ 31"
    and word: "FeatureWordAscii (options this) token = Inr feature_word"
    and orders: "\<forall>k \<in> set (chargram_orders (options this)).
        0 \<le> sint k \<and>
        (if k = 1 then length feature_word \<noteq> 3 else sint k \<noteq> int (length feature_word))"
  shows "ExtractCharactergramFeaturesAscii ext this token =
         ExtractCharactergramFeaturesUnicode ext this token"
proof (cases "is_padding token")
  case True
  then show ?thesis
    by (simp add: ExtractCharactergramFeaturesAscii_def ExtractCharactergramFeaturesUnicode_def)
next
  case False
  define fw where "fw = feature_word"
  have fw: "FeatureWordAscii (options this) token = Inr fw"
    "FeatureWordUnicode ext (options this) token = Inr fw" "is_ascii fw" "2 \<le> length fw"
    "length fw \<le> length (token_value token) + 2"
    using feature_words_agree [OF ascii digits nonneg parity small] word
    by (auto simp: fw_def)
  then have bound: "length fw < 2 ^ 31" using small by linarith
  have cps: "UTF8ToUnicodeText fw = map (\<lambda>c. [c]) fw"
    using fw(3) by (rule UTF8ToUnicodeText_ascii)
  have each: "chargrams_ascii fw k = map Inr (chargrams_unicode (map (\<lambda>c. [c]) fw) k)"
    if "k \<in> set (chargram_orders (options this))" for k
    using that orders fw(4) bound by (intro chargrams_agree) (auto simp: fw_def)
  have "concat (map (chargrams_ascii fw) (chargram_orders (options this))) =
      map Inr (concat (map (chargrams_unicode (map (\<lambda>c. [c]) fw))
        (chargram_orders (options this))))"
    using each by (simp add: map_concat comp_def cong: map_cong)
  then show ?thesis
    using False fw(1,2)
    by (simp add: ExtractCharactergramFeaturesAscii_def ExtractCharactergramFeaturesUnicode_def
        collect_map_Inr cps Let_def del: collect.simps)
qed

theorem ascii_unicode_agree_witness:
  "ExtractCharactergramFeaturesAscii example_externals
     (TokenFeatureExtractor_new example_externals (example_options True [1, 2, 3] 20))
     \<lparr>token_value = ''ab1'', is_padding = False, is_in_span = False\<rparr> =
     Inr [97, 98, 48, 191, 195, 146, 84, 289, 243, 182] \<and>
   ExtractCharactergramFeaturesUnicode example_externals
     (TokenFeatureExtractor_new example_externals (example_options True [1, 2, 3] 20))
     \<lparr>token_value = ''ab1'', is_padding = False, is_in_span = False\<rparr> =
     Inr [97, 98, 48, 191, 195, 146, 84, 289, 243, 182]"
proof -
  let ?x = "TokenFeatureExtractor_new example_externals (example_options True [1, 2, 3] 20)"
  let ?tok = "\<lparr>token_value = ''ab1'', is_padding = False, is_in_span = False\<rparr>"
  have ascii: "is_ascii (token_value ?tok)" by code_simp
  have digits: "\<forall>c. (of_char c :: nat) < 128 \<longrightarrow> u_isdigit example_externals [c] = isdigit c"
    by (simp add: example_externals_def)
  have nonneg: "0 \<le> sint (max_word_length (options ?x))" by code_simp
  have parity: "even (sint (max_word_length (options ?x))) \<or>
      int (length (token_value ?tok)) \<noteq> sint (max_word_length (options ?x))" by code_simp
  have small: "length (token_value ?tok) + 2 < 2 ^ 31" by simp
  have word: "FeatureWordAscii (options ?x) ?tok = Inr ''^ab0$''" by code_simp
  have orders: "\<forall>k \<in> set (chargram_orders (options ?x)).
        0 \<le> sint k \<and>
        (if k = 1 then length ''^ab0$'' \<noteq> 3 else sint k \<noteq> int (length ''^ab0$''))"
    by code_simp
  have run: "ExtractCharactergramFeaturesUnicode example_externals ?x ?tok =
      Inr [97, 98, 48, 191, 195, 146, 84, 289, 243, 182]"
    by code_simp
  show ?thesis
    using ascii_unicode_agree [OF ascii digits nonneg parity small word orders] run by simp
qed

text \<open>
  Unigrams leave the sentinels out: on the feature word of \<open>w\<close> the ASCII loop of order
  1 asks for the characters of \<open>w\<close>, one by one, and so does the Unicode loop unless
  \<open>w\<close> has exactly one character.
\<close>

theorem unigrams_exclude_sentinels:
  "chargrams_ascii (''^'' @ w @ ''$'') 1 = map (\<lambda>c. Inr [c]) w \<and>
   (length w \<noteq> 1 \<longrightarrow>
      chargrams_unicode (map (\<lambda>c. [c]) (''^'' @ w @ ''$'')) 1 = map (\<lambda>c. [c]) w)"
proof -
  let ?fw = "''^'' @ w @ ''$''"
  have n: "length ?fw - 2 = length w" by simp
  have "chargrams_ascii ?fw 1 = map Inr (windows ?fw 1 1 (length ?fw - 2))"
    by (intro chargrams_ascii_unigrams) simp
  then have a: "chargrams_ascii ?fw 1 = map (\<lambda>c. Inr [c]) w"
    by (simp only: n windows_interior) (simp add: comp_def)
  have u: "chargrams_unicode (map (\<lambda>c. [c]) ?fw) 1 = map (\<lambda>c. [c]) w" if "length w \<noteq> 1"
  proof -
    have "chargrams_unicode (map (\<lambda>c. [c]) ?fw) 1 = windows ?fw 1 1 (length ?fw - 2)"
      using that by (intro chargrams_unicode_unigrams) simp_all
    then show ?thesis by (simp only: n windows_interior)
  qed
  show ?thesis using a u by blast
qed

theorem unigrams_exclude_sentinels_witness:
  "length ''ab'' \<noteq> 1 \<and>
   chargrams_ascii ''^ab$'' 1 = [Inr ''a'', Inr ''b''] \<and>
   chargrams_unicode [''^'', ''a'', ''b'', ''$''] 1 = [''a'', ''b'']"
proof -
  have l: "length ''ab'' \<noteq> 1" by simp
  have "chargrams_ascii (''^'' @ ''ab'' @ ''$'') 1 = map (\<lambda>c. Inr [c]) ''ab''"
    by (rule unigrams_exclude_sentinels [THEN conjunct1])
  then have a: "chargrams_ascii ''^ab$'' 1 = [Inr ''a'', Inr ''b'']" by simp
  have "chargrams_unicode (map (\<lambda>c. [c]) (''^'' @ ''ab'' @ ''$'')) 1 = map (\<lambda>c. [c]) ''ab''"
    by (rule unigrams_exclude_sentinels [THEN conjunct2, THEN mp, OF l])
  then have u: "chargrams_unicode [''^'', ''a'', ''b'', ''$''] 1 = [''a'', ''b'']" by simp
  show ?thesis using l a u by blast
qed

text \<open>
  With an odd maximal word length a token of exactly that length is kept whole by the ASCII
  path and trimmed by the Unicode path, whose cut points meet only when the token has at most
  \<open>2 * (max_word_length div 2)\<close> codepoints.
\<close>

theorem odd_max_word_length_example:
  "FeatureWordAscii (example_options False [] 5)
     \<lparr>token_value = ''abcde'', is_padding = False, is_in_span = False\<rparr> = Inr ''^abcde$'' \<and>
   FeatureWordUnicode example_externals (example_options True [] 5)
     \<lparr>token_value = ''abcde'', is_padding = False, is_in_span = False\<rparr> =
     Inr [CHR ''^'', CHR ''a'', CHR ''b'', CHR 0x01, CHR ''d'', CHR ''e'', CHR ''$'']"
  by code_simp

end
